theory Spec2Isabelle
  imports Complex_Main "HOL-Library.AList"
begin

section \<open>The entity store (database.py)\<close>

text \<open>
  The SQLite file behind \<^verbatim>\<open>Database\<close> holds three tables. Each table is a list of rows in
  rowid order. The columns \<^verbatim>\<open>scanned_at\<close> and \<^verbatim>\<open>created_at\<close> are filled with
  \<^verbatim>\<open>datetime('now')\<close> and never read by the program; they are left out. A modification time
  is a Python float that the program only stores and compares with \<^verbatim>\<open>==\<close>; it is an
  \<^typ>\<open>int\<close> here. The foreign key clauses of the schema are declarations only: the program
  never switches \<^verbatim>\<open>PRAGMA foreign_keys\<close> on, so SQLite does not enforce them.
\<close>

type_synonym path = string

text \<open>What the \<^verbatim>\<open>embedding\<close> column of a face row can hold: text, bytes, or a value of
  another SQLite type (NULL, a number).\<close>

datatype stored = SText string | SBlob string | SOther

record file_row =
  f_path :: path
  f_hash :: string
  f_modified_time :: int

record face_row =
  face_id :: int
  file_path :: path
  embedding :: stored
  bbox :: string
  thumbnail_path :: "string option"
  person_id :: "int option"

record person_row =
  pr_id :: int
  pr_name :: "string option"
  pr_thumbnail_path :: "string option"

text \<open>Both id columns are \<^verbatim>\<open>INTEGER PRIMARY KEY AUTOINCREMENT\<close>: a new row gets the largest
  id ever handed out plus one, which the two counters record.\<close>

record database =
  files :: "file_row list"
  faces :: "face_row list"
  persons :: "person_row list"
  faces_seq :: int
  persons_seq :: int

text \<open>\<^verbatim>\<open>_init_db\<close> on a file that does not exist yet: three empty tables.\<close>

definition empty_db :: database where
  "empty_db = \<lparr>files = [], faces = [], persons = [], faces_seq = 0, persons_seq = 0\<rparr>"

text \<open>\<^verbatim>\<open>file_exists\<close>: the row of that path, if any, carries exactly this modification time.\<close>

definition file_exists :: "database \<Rightarrow> path \<Rightarrow> int \<Rightarrow> bool" where
  "file_exists db p modified_time =
     (case find (\<lambda>r. f_path r = p) (files db) of
        None \<Rightarrow> False
      | Some row \<Rightarrow> f_modified_time row = modified_time)"

text \<open>\<^verbatim>\<open>add_file\<close>: \<^verbatim>\<open>INSERT OR REPLACE\<close> deletes the row with the same primary key and
  inserts the new one.\<close>

definition add_file :: "database \<Rightarrow> path \<Rightarrow> string \<Rightarrow> int \<Rightarrow> database" where
  "add_file db p hash_val mtime =
     db\<lparr>files := filter (\<lambda>r. f_path r \<noteq> p) (files db)
                     @ [\<lparr>f_path = p, f_hash = hash_val, f_modified_time = mtime\<rparr>]\<rparr>"

text \<open>One detection as \<^verbatim>\<open>process_image\<close> returns it; \<^verbatim>\<open>d_embedding\<close> and \<^verbatim>\<open>d_bbox\<close> are the
  texts \<^verbatim>\<open>json.dumps\<close> makes of the two lists.\<close>

record detection =
  d_embedding :: string
  d_bbox :: string
  d_thumbnail :: "string option"

fun add_faces :: "database \<Rightarrow> path \<Rightarrow> detection list \<Rightarrow> database" where
  "add_faces db p [] = db"
| "add_faces db p (face # rest) =
     add_faces
       (db\<lparr>faces := faces db @
              [\<lparr>face_id = faces_seq db + 1, file_path = p, embedding = SText (d_embedding face),
                bbox = d_bbox face, thumbnail_path = d_thumbnail face, person_id = None\<rparr>],
           faces_seq := faces_seq db + 1\<rparr>)
       p rest"

definition get_unclustered_faces :: "database \<Rightarrow> (int \<times> stored) list" where
  "get_unclustered_faces db =
     map (\<lambda>f. (face_id f, embedding f)) (filter (\<lambda>f. person_id f = None) (faces db))"

definition get_unclustered_faces_info ::
  "database \<Rightarrow> (int \<times> path \<times> string \<times> string option) list" where
  "get_unclustered_faces_info db =
     map (\<lambda>f. (face_id f, file_path f, bbox f, thumbnail_path f))
       (filter (\<lambda>f. person_id f = None) (faces db))"

definition create_person :: "database \<Rightarrow> string option \<Rightarrow> database \<times> int" where
  "create_person db name =
     (let new_id = persons_seq db + 1
      in (db\<lparr>persons := persons db @
                 [\<lparr>pr_id = new_id, pr_name = name, pr_thumbnail_path = None\<rparr>],
              persons_seq := new_id\<rparr>,
          new_id))"

definition update_face_person :: "database \<Rightarrow> int \<Rightarrow> int \<Rightarrow> database" where
  "update_face_person db fid pid =
     db\<lparr>faces := map (\<lambda>f. if face_id f = fid then f\<lparr>person_id := Some pid\<rparr> else f) (faces db)\<rparr>"

definition get_persons :: "database \<Rightarrow> person_row list" where
  "get_persons db = persons db"

text \<open>\<^verbatim>\<open>SELECT DISTINCT file_path\<close>: each path once, at its first occurrence in rowid
  order.\<close>

definition get_photos_by_person :: "database \<Rightarrow> int \<Rightarrow> path list" where
  "get_photos_by_person db pid =
     rev (remdups (rev (map file_path (filter (\<lambda>f. person_id f = Some pid) (faces db)))))"

definition get_person_face_count :: "database \<Rightarrow> int \<Rightarrow> nat" where
  "get_person_face_count db pid = length (filter (\<lambda>f. person_id f = Some pid) (faces db))"

definition rename_person :: "database \<Rightarrow> int \<Rightarrow> string \<Rightarrow> database" where
  "rename_person db pid new_name =
     db\<lparr>persons := map (\<lambda>p. if pr_id p = pid then p\<lparr>pr_name := Some new_name\<rparr> else p)
                       (persons db)\<rparr>"

text \<open>\<^verbatim>\<open>merge_persons\<close> runs two statements on one connection and commits once. The two
  statements are modelled one by one, so that the state between them can be inspected.\<close>

definition merge_move_faces :: "database \<Rightarrow> int \<Rightarrow> int \<Rightarrow> database" where
  "merge_move_faces db keep_person_id merge_person_id =
     db\<lparr>faces := map (\<lambda>f. if person_id f = Some merge_person_id
                           then f\<lparr>person_id := Some keep_person_id\<rparr> else f) (faces db)\<rparr>"

definition merge_delete_person :: "database \<Rightarrow> int \<Rightarrow> database" where
  "merge_delete_person db merge_person_id =
     db\<lparr>persons := filter (\<lambda>p. pr_id p \<noteq> merge_person_id) (persons db)\<rparr>"

definition merge_persons :: "database \<Rightarrow> int \<Rightarrow> int \<Rightarrow> database" where
  "merge_persons db keep_person_id merge_person_id =
     merge_delete_person (merge_move_faces db keep_person_id merge_person_id) merge_person_id"

text \<open>The states the store goes through during \<^verbatim>\<open>merge_persons\<close>, statement by statement.
  Other connections see only the first and the last (the commit is atomic).\<close>

definition merge_persons_states :: "database \<Rightarrow> int \<Rightarrow> int \<Rightarrow> database list" where
  "merge_persons_states db keep_person_id merge_person_id =
     [db,
      merge_move_faces db keep_person_id merge_person_id,
      merge_persons db keep_person_id merge_person_id]"

definition update_person_thumbnail :: "database \<Rightarrow> int \<Rightarrow> string \<Rightarrow> database" where
  "update_person_thumbnail db pid thumb =
     db\<lparr>persons := map (\<lambda>p. if pr_id p = pid then p\<lparr>pr_thumbnail_path := Some thumb\<rparr> else p)
                       (persons db)\<rparr>"

definition get_first_face_thumbnail :: "database \<Rightarrow> int \<Rightarrow> string option" where
  "get_first_face_thumbnail db pid =
     (case find (\<lambda>f. person_id f = Some pid \<and> thumbnail_path f \<noteq> None) (faces db) of
        None \<Rightarrow> None
      | Some f \<Rightarrow> thumbnail_path f)"

subsection \<open>Predicates on a store\<close>

definition person_exists :: "database \<Rightarrow> int \<Rightarrow> bool" where
  "person_exists db pid = (pid \<in> set (map pr_id (persons db)))"

text \<open>A face row is well referenced when its \<^verbatim>\<open>person_id\<close> is NULL or the id of a row of
  \<^verbatim>\<open>persons\<close>.\<close>

definition face_ref_ok :: "database \<Rightarrow> face_row \<Rightarrow> bool" where
  "face_ref_ok db f = (case person_id f of None \<Rightarrow> True | Some pid \<Rightarrow> person_exists db pid)"

definition references_ok :: "database \<Rightarrow> bool" where
  "references_ok db = list_all (face_ref_ok db) (faces db)"

section \<open>The clustering engine (clusterer.py)\<close>

datatype py_error = KeyError | IndexError | ValueError

text \<open>\<^verbatim>\<open>str\<close> of a Python integer, for the display name \<^verbatim>\<open>f"Person {label + 1}"\<close>.\<close>

fun str_nat :: "nat \<Rightarrow> string" where
  "str_nat n =
     (if n < 10 then [''0123456789'' ! n]
      else str_nat (n div 10) @ [''0123456789'' ! (n mod 10)])"

definition str_int :: "int \<Rightarrow> string" where
  "str_int i = (if i < 0 then ''-'' @ str_nat (nat (- i)) else str_nat (nat i))"

text \<open>
  The body of the \<^verbatim>\<open>try\<close> of the first loop. \<^verbatim>\<open>loads\<close> stands for
  \<^verbatim>\<open>np.array(json.loads(text), dtype=np.float32)\<close>: it yields the vector, or \<^verbatim>\<open>None\<close> where
  the Python raises (bytes that are not UTF-8 count as text that does not parse). A value
  that is neither text nor bytes takes the \<^verbatim>\<open>continue\<close> of the \<^verbatim>\<open>else\<close> branch.
\<close>

definition parse_embedding :: "(string \<Rightarrow> 'e option) \<Rightarrow> stored \<Rightarrow> 'e option" where
  "parse_embedding loads emb_data =
     (case emb_data of SText t \<Rightarrow> loads t | SBlob b \<Rightarrow> loads b | SOther \<Rightarrow> None)"

text \<open>The first loop: \<^verbatim>\<open>face_ids.append(r[0])\<close> runs for every row, before the \<^verbatim>\<open>try\<close>;
  \<^verbatim>\<open>embeddings.append(emb)\<close> only for a row that parses.\<close>

fun parse_rows ::
  "(string \<Rightarrow> 'e option) \<Rightarrow> (int \<times> stored) list \<Rightarrow> int list \<Rightarrow> 'e list \<Rightarrow> int list \<times> 'e list" where
  "parse_rows loads [] face_ids embeddings = (face_ids, embeddings)"
| "parse_rows loads (r # rows) face_ids embeddings =
     (case parse_embedding loads (snd r) of
        None \<Rightarrow> parse_rows loads rows (face_ids @ [fst r]) embeddings
      | Some emb \<Rightarrow> parse_rows loads rows (face_ids @ [fst r]) (embeddings @ [emb]))"

text \<open>\<^verbatim>\<open>set(labels)\<close> is iterated in an order Python does not specify; the model takes the
  distinct labels in ascending order.\<close>

definition unique_labels :: "int list \<Rightarrow> int list" where
  "unique_labels labels = sort (remdups labels)"

text \<open>The loop over \<^verbatim>\<open>unique_labels\<close>: one new person per label other than -1
  (\<open>pid\<close> is the source's \<^verbatim>\<open>person_id\<close>).\<close>

fun create_people ::
  "int list \<Rightarrow> database \<Rightarrow> (int \<times> int) list \<Rightarrow> nat \<Rightarrow> database \<times> (int \<times> int) list \<times> nat" where
  "create_people [] db cluster_map new_people_count = (db, cluster_map, new_people_count)"
| "create_people (label # rest) db cluster_map new_people_count =
     (if label = - 1 then create_people rest db cluster_map new_people_count
      else
        (case create_person db (Some (''Person '' @ str_int (label + 1))) of
           (db', pid) \<Rightarrow>
             create_people rest db' (AList.update label pid cluster_map)
               (new_people_count + 1)))"

text \<open>The loop \<^verbatim>\<open>for idx, label in enumerate(labels)\<close>. Every update is committed at once,
  so the store keeps the updates made before an exception.\<close>

fun update_faces ::
  "(int \<times> int) list \<Rightarrow> int list \<Rightarrow> nat \<Rightarrow> int list \<Rightarrow> database \<Rightarrow> database \<times> py_error option" where
  "update_faces cluster_map face_ids idx [] db = (db, None)"
| "update_faces cluster_map face_ids idx (label # rest) db =
     (if label \<noteq> - 1 then
        (case map_of cluster_map label of
           None \<Rightarrow> (db, Some KeyError)
         | Some pid \<Rightarrow>
             if idx < length face_ids
             then update_faces cluster_map face_ids (idx + 1) rest
                    (update_face_person db (face_ids ! idx) pid)
             else (db, Some IndexError))
      else update_faces cluster_map face_ids (idx + 1) rest db)"

text \<open>The last loop, over \<^verbatim>\<open>cluster_map.items()\<close>; \<^verbatim>\<open>if thumbnail:\<close> rejects the empty
  string too.\<close>

fun set_thumbnails :: "(int \<times> int) list \<Rightarrow> database \<Rightarrow> database" where
  "set_thumbnails [] db = db"
| "set_thumbnails ((label, pid) # rest) db =
     (case get_first_face_thumbnail db pid of
        None \<Rightarrow> set_thumbnails rest db
      | Some thumbnail \<Rightarrow>
          if thumbnail \<noteq> [] then set_thumbnails rest (update_person_thumbnail db pid thumbnail)
          else set_thumbnails rest db)"

text \<open>
  \<^verbatim>\<open>run_clustering\<close>. The library calls are a parameter: \<^verbatim>\<open>dbscan X\<close> stands for
  \<^verbatim>\<open>np.array(embeddings)\<close>, the normalisation of its rows and
  \<^verbatim>\<open>DBSCAN(eps=0.5, min_samples=2).fit\<close>. It yields the labels, one per row, -1 for noise,
  or \<^verbatim>\<open>None\<close> where \<^verbatim>\<open>np.array\<close> raises a ValueError (parsed vectors of unequal length);
  that exception ends the run before any write. The result is the store after the run,
  and the returned count or the exception that ended the run.
\<close>

definition run_clustering ::
  "(string \<Rightarrow> 'e option) \<Rightarrow> ('e list \<Rightarrow> int list option) \<Rightarrow> database
     \<Rightarrow> database \<times> (py_error + nat)" where
  "run_clustering loads dbscan db =
     (let rows = get_unclustered_faces db in
      if rows = [] then (db, Inr 0)
      else
        (case parse_rows loads rows [] [] of
           (face_ids, embeddings) \<Rightarrow>
             if length embeddings < 2 then (db, Inr 0)
             else
               (case dbscan embeddings of
                  None \<Rightarrow> (db, Inl ValueError)
                | Some labels \<Rightarrow>
                    (case create_people (unique_labels labels) db [] 0 of
                       (db1, cluster_map, new_people_count) \<Rightarrow>
                         (case update_faces cluster_map face_ids 0 labels db1 of
                            (db2, Some e) \<Rightarrow> (db2, Inl e)
                          | (db2, None) \<Rightarrow>
                              (set_thumbnails cluster_map db2, Inr new_people_count))))))"

section \<open>The directory scanner (scanner.py)\<close>

text \<open>
  What a scan reads from outside the store: the file system under the root, the MD5
  function and the face processor. \<^verbatim>\<open>walk root\<close> is what \<^verbatim>\<open>os.walk(root)\<close> yields, as
  pairs of a directory path and its file names. \<^verbatim>\<open>read_file\<close> is \<^verbatim>\<open>None\<close> where opening or
  reading the file raises. \<^verbatim>\<open>process_image\<close> is \<^verbatim>\<open>None\<close> where the processor (or the
  \<^verbatim>\<open>add_faces\<close> that follows it in the same \<^verbatim>\<open>try\<close>) raises. \<^verbatim>\<open>os.path.getmtime\<close> is taken to
  succeed on an enumerated file.
\<close>

record host =
  path_exists :: "path \<Rightarrow> bool"
  walk :: "path \<Rightarrow> (path \<times> string list) list"
  getmtime :: "path \<Rightarrow> int"
  read_file :: "path \<Rightarrow> string option"
  md5_hexdigest :: "string \<Rightarrow> string"

text \<open>The arguments of one call of \<^verbatim>\<open>scan_directory\<close> and the scanner's processor.
  \<^verbatim>\<open>abort_check\<close>, when given, is the sequence of values its calls return: the \<open>k\<close>-th call
  of the scan returns \<^verbatim>\<open>flag k\<close>.\<close>

record scan_args =
  root_path :: path
  processor :: "(path \<Rightarrow> detection list option) option"
  progress_callback :: bool
  abort_check :: "(nat \<Rightarrow> bool) option"

definition VALID_EXTENSIONS :: "string list" where
  "VALID_EXTENSIONS = [''.jpg'', ''.jpeg'', ''.png'', ''.bmp'', ''.webp'', ''.tiff'']"

definition lower_char :: "char \<Rightarrow> char" where
  "lower_char c =
     (case map_of (zip ''ABCDEFGHIJKLMNOPQRSTUVWXYZ'' ''abcdefghijklmnopqrstuvwxyz'') c of
        None \<Rightarrow> c | Some l \<Rightarrow> l)"

text \<open>\<^verbatim>\<open>Path(f).suffix\<close> of a file name: from the last dot on, unless that dot is the first
  or the last character.\<close>

definition path_suffix :: "string \<Rightarrow> string" where
  "path_suffix name =
     (let ext = rev (takeWhile (\<lambda>c. c \<noteq> CHR ''.'') (rev name))
      in if CHR ''.'' \<in> set name \<and> ext \<noteq> [] \<and> length ext + 1 < length name
         then CHR ''.'' # ext else [])"

text \<open>\<^verbatim>\<open>os.path.join\<close> and \<^verbatim>\<open>os.path.basename\<close> on POSIX paths.\<close>

definition path_join :: "path \<Rightarrow> string \<Rightarrow> path" where
  "path_join a b =
     (if b \<noteq> [] \<and> hd b = CHR ''/'' then b
      else if a = [] \<or> last a = CHR ''/'' then a @ b
      else a @ ''/'' @ b)"

definition basename :: "path \<Rightarrow> string" where
  "basename p = rev (takeWhile (\<lambda>c. c \<noteq> CHR ''/'') (rev p))"

text \<open>Phase 1 of \<^verbatim>\<open>scan_directory\<close>: the image files, in walk order.\<close>

definition image_files :: "host \<Rightarrow> path \<Rightarrow> path list" where
  "image_files h root_dir =
     concat (map (\<lambda>(dirpath, filenames).
                map (path_join dirpath)
                  (filter (\<lambda>f. map lower_char (path_suffix f) \<in> set VALID_EXTENSIONS) filenames))
             (walk h root_dir))"

definition calculate_hash :: "host \<Rightarrow> path \<Rightarrow> string" where
  "calculate_hash h full_path =
     (case read_file h full_path of
        None \<Rightarrow> []
      | Some bytes \<Rightarrow> md5_hexdigest h bytes)"

text \<open>What a scan does, in the order it does it: calls of the progress callback, calls of
  \<^verbatim>\<open>abort_check\<close> with the value returned, files skipped as unchanged, and the calls of
  \<^verbatim>\<open>add_file\<close>, \<^verbatim>\<open>process_image\<close> and \<^verbatim>\<open>add_faces\<close>.\<close>

datatype action =
    Progress nat nat string
  | AbortCheck bool
  | Skip path
  | AddFile path string int
  | ProcessImage path
  | AddFaces path nat

record scan_state =
  store :: database
  processed_files :: nat
  trace :: "action list"
  abort_checks :: nat

definition emit :: "action \<Rightarrow> scan_state \<Rightarrow> scan_state" where
  "emit a st = st\<lparr>trace := trace st @ [a]\<rparr>"

text \<open>The part of the loop body after the abort check.\<close>

definition process_file :: "host \<Rightarrow> scan_args \<Rightarrow> path \<Rightarrow> scan_state \<Rightarrow> scan_state" where
  "process_file h args full_path st =
     (let mtime = getmtime h full_path in
      if file_exists (store st) full_path mtime
      then (emit (Skip full_path) st)\<lparr>processed_files := processed_files st + 1\<rparr>
      else
        (let file_hash = calculate_hash h full_path;
             st1 = (emit (AddFile full_path file_hash mtime) st)
                     \<lparr>store := add_file (store st) full_path file_hash mtime\<rparr>;
             st2 =
               (case processor args of
                  None \<Rightarrow> st1
                | Some process_image \<Rightarrow>
                    (case process_image full_path of
                       None \<Rightarrow> emit (ProcessImage full_path) st1
                     | Some found \<Rightarrow>
                         if found \<noteq> []
                         then (emit (AddFaces full_path (length found))
                                 (emit (ProcessImage full_path) st1))
                                \<lparr>store := add_faces (store st1) full_path found\<rparr>
                         else emit (ProcessImage full_path) st1))
         in st2\<lparr>processed_files := processed_files st2 + 1\<rparr>))"

text \<open>\<^verbatim>\<open>if progress_callback: progress_callback(processed_files, total_files, name)\<close>.\<close>

definition report_progress :: "scan_args \<Rightarrow> nat \<Rightarrow> string \<Rightarrow> scan_state \<Rightarrow> scan_state" where
  "report_progress args total_files name st =
     (if progress_callback args then emit (Progress (processed_files st) total_files name) st
      else st)"

text \<open>The condition \<^verbatim>\<open>abort_check and abort_check()\<close>: its value, and the state after the
  call (if there is one).\<close>

definition poll_abort :: "scan_args \<Rightarrow> scan_state \<Rightarrow> bool \<times> scan_state" where
  "poll_abort args st =
     (case abort_check args of
        None \<Rightarrow> (False, st)
      | Some flag \<Rightarrow>
          (flag (abort_checks st),
           (emit (AbortCheck (flag (abort_checks st))) st)\<lparr>abort_checks := abort_checks st + 1\<rparr>))"

text \<open>The loop \<^verbatim>\<open>for idx, full_path in enumerate(image_files)\<close>; \<^verbatim>\<open>break\<close> ends the
  recursion.\<close>

fun scan_loop :: "host \<Rightarrow> scan_args \<Rightarrow> nat \<Rightarrow> path list \<Rightarrow> scan_state \<Rightarrow> scan_state" where
  "scan_loop h args total_files [] st = st"
| "scan_loop h args total_files (full_path # rest) st =
     (case poll_abort args (report_progress args total_files (basename full_path) st) of
        (True, st') \<Rightarrow> st'
      | (False, st') \<Rightarrow> scan_loop h args total_files rest (process_file h args full_path st'))"

definition start_state :: "database \<Rightarrow> scan_state" where
  "start_state db = \<lparr>store = db, processed_files = 0, trace = [], abort_checks = 0\<rparr>"

definition scan_directory :: "host \<Rightarrow> scan_args \<Rightarrow> database \<Rightarrow> scan_state" where
  "scan_directory h args db =
     (if \<not> path_exists h (root_path args) then start_state db
      else
        (let files_found = image_files h (root_path args);
             total_files = length files_found
         in report_progress args total_files ''Complete''
              (scan_loop h args total_files files_found (start_state db))))"

text \<open>Reading a trace: a scan was stopped by the cancellation signal when a call of
  \<^verbatim>\<open>abort_check\<close> returned true; the files that got past the abort check, in order (each
  is then either skipped or given to \<^verbatim>\<open>add_file\<close>); the actions that process a given
  file.\<close>

definition cancelled :: "scan_state \<Rightarrow> bool" where
  "cancelled st = (AbortCheck True \<in> set (trace st))"

fun is_abort_check :: "action \<Rightarrow> bool" where
  "is_abort_check (AbortCheck b) = True"
| "is_abort_check a = False"

fun is_process_image :: "action \<Rightarrow> bool" where
  "is_process_image (ProcessImage p) = True"
| "is_process_image a = False"

fun handled_paths :: "action list \<Rightarrow> path list" where
  "handled_paths [] = []"
| "handled_paths (Skip p # tr) = p # handled_paths tr"
| "handled_paths (AddFile p hv m # tr) = p # handled_paths tr"
| "handled_paths (a # tr) = handled_paths tr"

fun touches :: "path \<Rightarrow> action \<Rightarrow> bool" where
  "touches p (AddFile q hv m) = (q = p)"
| "touches p (ProcessImage q) = (q = p)"
| "touches p (AddFaces q n) = (q = p)"
| "touches p a = False"

subsection \<open>The thumbnails a scan leaves behind (processor.py)\<close>

text \<open>
  For every detection with a crop that is not empty, \<^verbatim>\<open>process_image\<close> writes the file
  \<^verbatim>\<open>os.path.join(self.thumbnail_dir, f"{face_id}.jpg")\<close> and returns its path as the
  detection's thumbnail (\<^verbatim>\<open>None\<close> when writing raised). \<^verbatim>\<open>run_scan\<close> makes
  \<^verbatim>\<open>root/.faceframe/thumbnails\<close> that directory, inside the tree that \<^verbatim>\<open>os.walk(root)\<close>
  visits. The host after a scan is the host before it with every thumbnail of a returned
  detection listed in its directory; a file is listed only in a directory the walk
  already has, since writing the image creates no directory. \<^verbatim>\<open>getmtime\<close> and
  \<^verbatim>\<open>read_file\<close> of a host answer for every path, so they already tell the time and the
  content of a file written later.
\<close>

text \<open>\<^verbatim>\<open>os.path.dirname\<close> on POSIX paths.\<close>

definition dirname :: "path \<Rightarrow> path" where
  "dirname p =
     (let head = rev (dropWhile (\<lambda>c. c \<noteq> CHR ''/'') (rev p))
      in if head \<noteq> [] \<and> \<not> list_all (\<lambda>c. c = CHR ''/'') head
         then rev (dropWhile (\<lambda>c. c = CHR ''/'') (rev head))
         else head)"

fun add_to_walk :: "path \<Rightarrow> (path \<times> string list) list \<Rightarrow> (path \<times> string list) list" where
  "add_to_walk t [] = []"
| "add_to_walk t ((dirpath, filenames) # rest) =
     (if dirpath = dirname t
      then (dirpath, if basename t \<in> set filenames then filenames else filenames @ [basename t])
             # rest
      else (dirpath, filenames) # add_to_walk t rest)"

fun written_by :: "(path \<Rightarrow> detection list option) \<Rightarrow> action \<Rightarrow> path list" where
  "written_by process_image (ProcessImage p) =
     (case process_image p of None \<Rightarrow> [] | Some found \<Rightarrow> List.map_filter d_thumbnail found)"
| "written_by process_image a = []"

definition thumbnails_written :: "scan_args \<Rightarrow> scan_state \<Rightarrow> path list" where
  "thumbnails_written args st =
     (case processor args of
        None \<Rightarrow> []
      | Some process_image \<Rightarrow> concat (map (written_by process_image) (trace st)))"

definition host_after_scan :: "host \<Rightarrow> scan_args \<Rightarrow> scan_state \<Rightarrow> host" where
  "host_after_scan h args st =
     h\<lparr>walk := (walk h)(root_path args :=
                    fold add_to_walk (thumbnails_written args st) (walk h (root_path args)))\<rparr>"

section \<open>The session (main.py)\<close>

text \<open>A value \<^verbatim>\<open>json.loads\<close> returns. In an object a later member replaces an earlier one
  of the same name.\<close>

datatype json =
    JNull
  | JBool bool
  | JInt int
  | JFloat real
  | JStr string
  | JList "json list"
  | JDict "(string \<times> json) list"

text \<open>Python's truth value of such a value, as \<^verbatim>\<open>if path and person_id\<close> tests it.\<close>

fun truthy :: "json \<Rightarrow> bool" where
  "truthy JNull = False"
| "truthy (JBool b) = b"
| "truthy (JInt i) = (i \<noteq> 0)"
| "truthy (JFloat x) = (x \<noteq> 0)"
| "truthy (JStr s) = (s \<noteq> [])"
| "truthy (JList xs) = (xs \<noteq> [])"
| "truthy (JDict kvs) = (kvs \<noteq> [])"

text \<open>\<^verbatim>\<open>cmd.get(key)\<close> and \<^verbatim>\<open>cmd.get(key, default)\<close>.\<close>

definition dict_get :: "(string \<times> json) list \<Rightarrow> string \<Rightarrow> json" where
  "dict_get kvs key = (case map_of (rev kvs) key of None \<Rightarrow> JNull | Some v \<Rightarrow> v)"

definition dict_get_default :: "(string \<times> json) list \<Rightarrow> string \<Rightarrow> json \<Rightarrow> json" where
  "dict_get_default kvs key dflt = (case map_of (rev kvs) key of None \<Rightarrow> dflt | Some v \<Rightarrow> v)"

text \<open>The lines the program prints on its output, by their \<^verbatim>\<open>status\<close>. The message of an
  error line and the GPU details of a providers line are left out.\<close>

datatype response =
    RStarted json
  | RProgress nat nat string
  | RComplete json
  | RCancelled
  | RError
  | RProviders "string list"
  | RClustered nat
  | RUnclustered "(int \<times> path \<times> string \<times> string option) list"
  | RPersons "(int \<times> string \<times> string option) list"
  | RPhotosByPerson json "path list"
  | RPersonRenamed json json
  | RPersonsMerged json json
  | RIndexCleared
  | RPong

text \<open>
  The state a session works on. \<^verbatim>\<open>indexes\<close> maps a root path to the store in its
  \<^verbatim>\<open>.faceframe\<close> directory; a root without an entry has no such directory, and a directory
  without a database file counts as one with the empty store (opening it creates the
  tables). Root paths are compared as the strings the commands carry.
  \<^verbatim>\<open>scan_threads\<close> lists the arguments of the threads started so far; what a thread does is
  \<^verbatim>\<open>run_scan\<close> below.
\<close>

record world =
  indexes :: "(path \<times> database) list"
  abort_scan_flag :: bool
  scan_threads :: "(json \<times> json) list"

text \<open>What the command loop uses from outside: the two library calls of the clusterer and
  \<^verbatim>\<open>onnxruntime.get_available_providers()\<close> (\<^verbatim>\<open>None\<close> when the import fails).\<close>

record 'e session_env =
  loads :: "string \<Rightarrow> 'e option"
  dbscan :: "'e list \<Rightarrow> int list option"
  available_providers :: "string list option"

text \<open>
  \<^verbatim>\<open>Database(str(Path(path) / ".faceframe" / "index.db"))\<close> followed by the body of a
  branch. \<^verbatim>\<open>Path\<close> raises for a value that is not a string, and SQLite cannot open a file
  in a directory that does not exist; both exceptions end in the \<^verbatim>\<open>except Exception\<close> of
  the loop, which only logs.
\<close>

definition with_db ::
  "world \<Rightarrow> json \<Rightarrow> (path \<Rightarrow> database \<Rightarrow> (world \<times> response list) option)
     \<Rightarrow> (world \<times> response list) option" where
  "with_db w path_value body =
     (case path_value of
        JStr p \<Rightarrow> (case map_of (indexes w) p of None \<Rightarrow> Some (w, []) | Some db \<Rightarrow> body p db)
      | _ \<Rightarrow> Some (w, []))"

definition put_db :: "world \<Rightarrow> path \<Rightarrow> database \<Rightarrow> world" where
  "put_db w p db = w\<lparr>indexes := AList.update p db (indexes w)\<rparr>"

text \<open>A person id as a parameter of an SQL statement. A JSON integer is bound as it is
  when it fits in 64 signed bits; for a larger one \<^verbatim>\<open>sqlite3\<close> raises an OverflowError,
  which the loop logs. \<^verbatim>\<open>True\<close> is bound as 1. For an id of another JSON type the result of
  a command is \<^verbatim>\<open>None\<close>: outside the model. The same holds for a new name that is not a
  string. Parameters are bound in the order of the statement's placeholders.\<close>

datatype sql_param = SqlInt int | SqlOverflow | SqlUnmodelled

fun as_id :: "json \<Rightarrow> sql_param" where
  "as_id (JInt i) = (if - (2 ^ 63) \<le> i \<and> i < 2 ^ 63 then SqlInt i else SqlOverflow)"
| "as_id (JBool b) = SqlInt (if b then 1 else 0)"
| "as_id v = SqlUnmodelled"

definition cmd_scan :: "(string \<times> json) list \<Rightarrow> world \<Rightarrow> (world \<times> response list) option" where
  "cmd_scan cmd w =
     (let path_value = dict_get cmd ''path'';
          provider = dict_get_default cmd ''provider'' (JStr ''CPUExecutionProvider'')
      in if truthy path_value
         then Some (w\<lparr>scan_threads := scan_threads w @ [(path_value, provider)]\<rparr>, [])
         else Some (w, []))"

definition cmd_get_providers ::
  "'e session_env \<Rightarrow> world \<Rightarrow> (world \<times> response list) option" where
  "cmd_get_providers env w =
     (case available_providers env of
        None \<Rightarrow> Some (w, [])
      | Some providers \<Rightarrow> Some (w, [RProviders providers]))"

definition cmd_cluster ::
  "'e session_env \<Rightarrow> (string \<times> json) list \<Rightarrow> world \<Rightarrow> (world \<times> response list) option" where
  "cmd_cluster env cmd w =
     (let path_value = dict_get cmd ''path''
      in if truthy path_value
         then with_db w path_value (\<lambda>p db.
                case run_clustering (loads env) (dbscan env) db of
                  (db', Inr count) \<Rightarrow> Some (put_db w p db', [RClustered count])
                | (db', Inl e) \<Rightarrow> Some (put_db w p db', []))
         else Some (w, []))"

text \<open>The bounding box of a row is passed on as its JSON text, \<^verbatim>\<open>[0,0,0,0]\<close> for an empty
  one; the texts are taken to be the ones \<^verbatim>\<open>add_faces\<close> wrote, which \<^verbatim>\<open>json.loads\<close>
  accepts.\<close>

definition cmd_get_unclustered ::
  "(string \<times> json) list \<Rightarrow> world \<Rightarrow> (world \<times> response list) option" where
  "cmd_get_unclustered cmd w =
     (let path_value = dict_get cmd ''path''
      in if truthy path_value
         then with_db w path_value (\<lambda>p db.
                Some (w, [RUnclustered
                  (map (\<lambda>(fid, fp, bb, thumb).
                          (fid, fp, (if bb \<noteq> [] then bb else ''[0, 0, 0, 0]''),
                           (case thumb of None \<Rightarrow> None
                            | Some th \<Rightarrow> if th \<noteq> [] then Some th else None)))
                     (get_unclustered_faces_info db))]))
         else Some (w, []))"

definition cmd_cancel_scan :: "world \<Rightarrow> (world \<times> response list) option" where
  "cmd_cancel_scan w = Some (w\<lparr>abort_scan_flag := True\<rparr>, [])"

definition cmd_clear_index ::
  "(string \<times> json) list \<Rightarrow> world \<Rightarrow> (world \<times> response list) option" where
  "cmd_clear_index cmd w =
     (let path_value = dict_get cmd ''path''
      in if truthy path_value
         then (case path_value of
                 JStr p \<Rightarrow> Some (w\<lparr>indexes := AList.delete p (indexes w)\<rparr>, [RIndexCleared])
               | _ \<Rightarrow> Some (w, []))
         else Some (w, []))"

definition cmd_get_persons ::
  "(string \<times> json) list \<Rightarrow> world \<Rightarrow> (world \<times> response list) option" where
  "cmd_get_persons cmd w =
     (let path_value = dict_get cmd ''path''
      in if truthy path_value
         then with_db w path_value (\<lambda>p db.
                Some (w, [RPersons
                  (map (\<lambda>row.
                          (pr_id row,
                           (case pr_name row of
                              None \<Rightarrow> ''Person '' @ str_int (pr_id row)
                            | Some n \<Rightarrow> if n \<noteq> [] then n else ''Person '' @ str_int (pr_id row)),
                           pr_thumbnail_path row))
                     (get_persons db))]))
         else Some (w, []))"

definition cmd_get_photos_by_person ::
  "(string \<times> json) list \<Rightarrow> world \<Rightarrow> (world \<times> response list) option" where
  "cmd_get_photos_by_person cmd w =
     (let path_value = dict_get cmd ''path'';
          pid_value = dict_get cmd ''person_id''
      in if truthy path_value \<and> truthy pid_value
         then with_db w path_value (\<lambda>p db.
                case as_id pid_value of
                  SqlInt pid \<Rightarrow>
                    Some (w, [RPhotosByPerson pid_value (get_photos_by_person db pid)])
                | SqlOverflow \<Rightarrow> Some (w, [])
                | SqlUnmodelled \<Rightarrow> None)
         else Some (w, []))"

definition cmd_rename_person ::
  "(string \<times> json) list \<Rightarrow> world \<Rightarrow> (world \<times> response list) option" where
  "cmd_rename_person cmd w =
     (let path_value = dict_get cmd ''path'';
          pid_value = dict_get cmd ''person_id'';
          new_name = dict_get cmd ''new_name''
      in if truthy path_value \<and> truthy pid_value \<and> truthy new_name
         then with_db w path_value (\<lambda>p db.
                case new_name of
                  JStr name \<Rightarrow>
                    (case as_id pid_value of
                       SqlInt pid \<Rightarrow>
                         Some (put_db w p (rename_person db pid name),
                               [RPersonRenamed pid_value new_name])
                     | SqlOverflow \<Rightarrow> Some (w, [])
                     | SqlUnmodelled \<Rightarrow> None)
                | _ \<Rightarrow> None)
         else Some (w, []))"

definition cmd_merge_persons ::
  "(string \<times> json) list \<Rightarrow> world \<Rightarrow> (world \<times> response list) option" where
  "cmd_merge_persons cmd w =
     (let path_value = dict_get cmd ''path'';
          keep_id = dict_get cmd ''keep_id'';
          merge_id = dict_get cmd ''merge_id''
      in if truthy path_value \<and> truthy keep_id \<and> truthy merge_id
         then with_db w path_value (\<lambda>p db.
                case as_id keep_id of
                  SqlInt k \<Rightarrow>
                    (case as_id merge_id of
                       SqlInt m \<Rightarrow>
                         Some (put_db w p (merge_persons db k m),
                               [RPersonsMerged keep_id merge_id])
                     | SqlOverflow \<Rightarrow> Some (w, [])
                     | SqlUnmodelled \<Rightarrow> None)
                | SqlOverflow \<Rightarrow> Some (w, [])
                | SqlUnmodelled \<Rightarrow> None)
         else Some (w, []))"

text \<open>The \<^verbatim>\<open>if\<close>/\<^verbatim>\<open>elif\<close> chain on \<^verbatim>\<open>action\<close>. A command that is not an object has no
  \<^verbatim>\<open>get\<close>: the exception is logged. An unknown action matches no branch.\<close>

definition handle_command ::
  "'e session_env \<Rightarrow> json \<Rightarrow> world \<Rightarrow> (world \<times> response list) option" where
  "handle_command env command w =
     (case command of
        JDict cmd \<Rightarrow>
          (let action = dict_get cmd ''action'' in
           if action = JStr ''SCAN'' then cmd_scan cmd w
           else if action = JStr ''GET_PROVIDERS'' then cmd_get_providers env w
           else if action = JStr ''CLUSTER'' then cmd_cluster env cmd w
           else if action = JStr ''GET_UNCLUSTERED'' then cmd_get_unclustered cmd w
           else if action = JStr ''CANCEL_SCAN'' then cmd_cancel_scan w
           else if action = JStr ''CLEAR_INDEX'' then cmd_clear_index cmd w
           else if action = JStr ''GET_PERSONS'' then cmd_get_persons cmd w
           else if action = JStr ''GET_PHOTOS_BY_PERSON'' then cmd_get_photos_by_person cmd w
           else if action = JStr ''RENAME_PERSON'' then cmd_rename_person cmd w
           else if action = JStr ''MERGE_PERSONS'' then cmd_merge_persons cmd w
           else if action = JStr ''PING'' then Some (w, [RPong])
           else Some (w, []))
      | _ \<Rightarrow> Some (w, []))"

text \<open>One input line: blank after \<^verbatim>\<open>strip\<close>, not JSON, or a JSON value. The loop of
  \<^verbatim>\<open>main\<close> ends with the input.\<close>

datatype input_line = Blank | Invalid | Parsed json

fun main_loop ::
  "'e session_env \<Rightarrow> input_line list \<Rightarrow> world \<Rightarrow> (world \<times> response list) option" where
  "main_loop env [] w = Some (w, [])"
| "main_loop env (Blank # rest) w = main_loop env rest w"
| "main_loop env (Invalid # rest) w = main_loop env rest w"
| "main_loop env (Parsed command # rest) w =
     (case handle_command env command w of
        None \<Rightarrow> None
      | Some (w', out) \<Rightarrow>
          (case main_loop env rest w' of
             None \<Rightarrow> None
           | Some (w'', out') \<Rightarrow> Some (w'', out @ out')))"

subsection \<open>The scan thread\<close>

text \<open>
  What \<^verbatim>\<open>run_scan\<close> uses besides the host of the scanner: whether the two \<^verbatim>\<open>mkdir\<close> calls
  under a root succeed; the constructor of \<^verbatim>\<open>FaceProcessor\<close>, given \<^verbatim>\<open>use_gpu\<close> and the
  thumbnail directory (\<^verbatim>\<open>None\<close> when it raises, as it does when InsightFace is missing);
  and the values the thread reads from the global \<^verbatim>\<open>abort_scan_flag\<close>, which the command
  loop sets while the thread runs: its \<open>k\<close>-th read yields \<^verbatim>\<open>flag_reads k\<close>.
\<close>

record scan_setup =
  mkdir_ok :: "path \<Rightarrow> bool"
  make_processor :: "bool \<Rightarrow> path \<Rightarrow> (path \<Rightarrow> detection list option) option"
  flag_reads :: "nat \<Rightarrow> bool"

fun contains :: "string \<Rightarrow> string \<Rightarrow> bool" where
  "contains sub [] = (sub = [])"
| "contains sub (c # cs) = (take (length sub) (c # cs) = sub \<or> contains sub cs)"

text \<open>\<^verbatim>\<open>'CUDA' in provider_name\<close>; \<^verbatim>\<open>None\<close> where Python raises a TypeError.\<close>

fun cuda_in :: "json \<Rightarrow> bool option" where
  "cuda_in (JStr s) = Some (contains ''CUDA'' s)"
| "cuda_in (JList xs) = Some (JStr ''CUDA'' \<in> set xs)"
| "cuda_in (JDict kvs) = Some (''CUDA'' \<in> set (map fst kvs))"
| "cuda_in v = None"

text \<open>\<^verbatim>\<open>mkdir(parents=True, exist_ok=True)\<close> on \<^verbatim>\<open>root/.faceframe\<close> and on its
  \<^verbatim>\<open>thumbnails\<close> directory creates the root too when it is missing. What \<^verbatim>\<open>os.walk\<close>
  yields on a root created that way: the two new directories and the database file.\<close>

definition fresh_tree :: "path \<Rightarrow> (path \<times> string list) list" where
  "fresh_tree p =
     [(p, []),
      (path_join p ''.faceframe'', [''index.db'']),
      (path_join (path_join p ''.faceframe'') ''thumbnails'', [])]"

definition host_after_mkdir :: "host \<Rightarrow> path \<Rightarrow> host" where
  "host_after_mkdir h p =
     (if path_exists h p then h
      else h\<lparr>path_exists := (path_exists h)(p := True), walk := (walk h)(p := fresh_tree p)\<rparr>)"

fun progress_line :: "action \<Rightarrow> response list" where
  "progress_line (Progress current total_files name) = [RProgress current total_files name]"
| "progress_line a = []"

text \<open>\<^verbatim>\<open>run_scan\<close>, on the indexes of the world. The scan itself is taken as one step.\<close>

definition run_scan ::
  "host \<Rightarrow> scan_setup \<Rightarrow> json \<Rightarrow> json \<Rightarrow> (path \<times> database) list
     \<Rightarrow> (path \<times> database) list \<times> response list" where
  "run_scan h su path_value provider_name idx =
     (case path_value of
        JStr p \<Rightarrow>
          if \<not> mkdir_ok su p then (idx, [RError])
          else
            (let db0 = (case map_of idx p of None \<Rightarrow> empty_db | Some db \<Rightarrow> db);
                 idx1 = AList.update p db0 idx;
                 thumbnail_dir = path_join (path_join p ''.faceframe'') ''thumbnails''
             in case cuda_in provider_name of
                  None \<Rightarrow> (idx1, [RError])
                | Some use_gpu \<Rightarrow>
                    (case make_processor su use_gpu thumbnail_dir of
                       None \<Rightarrow> (idx1, [RError])
                     | Some process_image \<Rightarrow>
                         (let st = scan_directory (host_after_mkdir h p)
                                     \<lparr>root_path = p, processor = Some process_image,
                                      progress_callback = True,
                                      abort_check = Some (flag_reads su)\<rparr> db0
                          in (AList.update p (store st) idx,
                              [RStarted path_value] @ concat (map progress_line (trace st))
                                @ [if flag_reads su (abort_checks st) then RCancelled
                                   else RComplete path_value]))))
      | _ \<Rightarrow> (idx, [RError]))"

subsection \<open>Reading the protocol\<close>

text \<open>The fields each store command tests before it does anything (the guards
  \<^verbatim>\<open>if path:\<close>, \<^verbatim>\<open>if path and person_id:\<close> and so on).\<close>

definition required_fields :: "(string \<times> string list) list" where
  "required_fields =
     [(''CLUSTER'', [''path'']),
      (''GET_UNCLUSTERED'', [''path'']),
      (''GET_PERSONS'', [''path'']),
      (''GET_PHOTOS_BY_PERSON'', [''path'', ''person_id'']),
      (''RENAME_PERSON'', [''path'', ''person_id'', ''new_name'']),
      (''MERGE_PERSONS'', [''path'', ''keep_id'', ''merge_id'']),
      (''CLEAR_INDEX'', [''path''])]"

section \<open>Example data\<close>

subsection \<open>Example stores\<close>

text \<open>Two persons; one face of person 1, two faces of person 2, one face without a person.\<close>

definition merge_example_db :: database where
  "merge_example_db =
     \<lparr>files = [\<lparr>f_path = ''/p/a.jpg'', f_hash = ''h'', f_modified_time = 5\<rparr>],
      faces = [\<lparr>face_id = 1, file_path = ''/p/a.jpg'', embedding = SText ''[1.0]'', bbox = ''[0, 0, 1, 1]'',
                thumbnail_path = None, person_id = Some 1\<rparr>,
               \<lparr>face_id = 2, file_path = ''/p/a.jpg'', embedding = SText ''[1.0]'', bbox = ''[0, 0, 1, 1]'',
                thumbnail_path = None, person_id = Some 2\<rparr>,
               \<lparr>face_id = 3, file_path = ''/p/a.jpg'', embedding = SText ''[1.0]'', bbox = ''[0, 0, 1, 1]'',
                thumbnail_path = None, person_id = Some 2\<rparr>,
               \<lparr>face_id = 4, file_path = ''/p/a.jpg'', embedding = SText ''[1.0]'', bbox = ''[0, 0, 1, 1]'',
                thumbnail_path = None, person_id = None\<rparr>],
      persons = [\<lparr>pr_id = 1, pr_name = Some ''Person 1'', pr_thumbnail_path = None\<rparr>,
                 \<lparr>pr_id = 2, pr_name = Some ''Person 2'', pr_thumbnail_path = None\<rparr>],
      faces_seq = 4, persons_seq = 2\<rparr>"

subsection \<open>Example directory\<close>

text \<open>A root with two image files and one text file. The first image cannot be read;
  the processor finds one face in the second.\<close>

definition example_host :: host where
  "example_host =
     \<lparr>path_exists = (\<lambda>p. p = ''/photos''),
      walk = (\<lambda>p. if p = ''/photos'' then [(''/photos'', [''a.jpg'', ''notes.txt'', ''b.PNG''])] else []),
      getmtime = (\<lambda>p. if p = ''/photos/a.jpg'' then 100 else 200),
      read_file = (\<lambda>p. if p = ''/photos/a.jpg'' then None else Some ''bytes''),
      md5_hexdigest = (\<lambda>b. ''0cc175b9c0f1b6a831c399e269772661'')\<rparr>"

definition example_detection :: detection where
  "example_detection = \<lparr>d_embedding = ''[0.6, 0.8]'', d_bbox = ''[0, 0, 10, 10]'', d_thumbnail = None\<rparr>"

definition example_args :: "(nat \<Rightarrow> bool) \<Rightarrow> scan_args" where
  "example_args flag =
     \<lparr>root_path = ''/photos'',
      processor = Some (\<lambda>p. if p = ''/photos/b.PNG'' then Some [example_detection] else Some []),
      progress_callback = True,
      abort_check = Some flag\<rparr>"

text \<open>An album as \<^verbatim>\<open>run_scan\<close> leaves it before the scan: one photo, the index directory
  with the database file, and the empty thumbnail directory. The processor finds one face
  in the photo and writes its thumbnail; it finds no face in any other file.\<close>

definition album_host :: host where
  "album_host =
     \<lparr>path_exists = (\<lambda>p. p = ''/album''),
      walk = (\<lambda>p. if p = ''/album''
                   then [(''/album'', [''c.jpg'']),
                         (''/album/.faceframe'', [''index.db'']),
                         (''/album/.faceframe/thumbnails'', [])]
                   else []),
      getmtime = (\<lambda>p. 300),
      read_file = (\<lambda>p. Some ''bytes''),
      md5_hexdigest = (\<lambda>b. ''0cc175b9c0f1b6a831c399e269772661'')\<rparr>"

definition album_args :: scan_args where
  "album_args =
     \<lparr>root_path = ''/album'',
      processor =
        Some (\<lambda>p. if p = ''/album/c.jpg''
                   then Some [\<lparr>d_embedding = ''[0.6, 0.8]'', d_bbox = ''[0, 0, 10, 10]'',
                               d_thumbnail = Some ''/album/.faceframe/thumbnails/0123456789ab.jpg''\<rparr>]
                   else Some []),
      progress_callback = True,
      abort_check = Some (\<lambda>k. False)\<rparr>"

subsection \<open>Example session\<close>

text \<open>A world with one index; a setup in which every step succeeds and the cancel flag is
  never set.\<close>

definition example_world :: world where
  "example_world =
     \<lparr>indexes = [(''/photos'', merge_example_db)], abort_scan_flag = False, scan_threads = []\<rparr>"

text \<open>An environment of the command loop: a parser that accepts every text, a clustering
  that finds no cluster, and one execution provider.\<close>

definition example_env :: "string session_env" where
  "example_env =
     \<lparr>loads = (\<lambda>t. Some t),
      dbscan = (\<lambda>X. Some (map (\<lambda>x. - 1) X)),
      available_providers = Some [''CPUExecutionProvider'']\<rparr>"

definition example_setup :: scan_setup where
  "example_setup =
     \<lparr>mkdir_ok = (\<lambda>p. True),
      make_processor = (\<lambda>use_gpu thumbnail_dir. Some (\<lambda>p. Some [])),
      flag_reads = (\<lambda>k. False)\<rparr>"

subsection \<open>Example stores for clustering\<close>

text \<open>Unclustered faces, the first with an embedding column that is neither text nor
  bytes. In the first store the two other faces carry the same vector; in the second the
  face after the unparsable one carries a vector far from the two equal ones.\<close>

definition face_with :: "int \<Rightarrow> stored \<Rightarrow> face_row" where
  "face_with fid emb =
     \<lparr>face_id = fid, file_path = ''/photos/a.jpg'', embedding = emb, bbox = ''[0, 0, 10, 10]'',
      thumbnail_path = None, person_id = None\<rparr>"

definition unparsed_first_db :: database where
  "unparsed_first_db =
     \<lparr>files = [\<lparr>f_path = ''/photos/a.jpg'', f_hash = ''h'', f_modified_time = 5\<rparr>],
      faces = [face_with 1 SOther, face_with 2 (SText ''[1.0, 0.0]''),
               face_with 3 (SText ''[1.0, 0.0]'')],
      persons = [], faces_seq = 3, persons_seq = 0\<rparr>"

definition noise_second_db :: database where
  "noise_second_db =
     \<lparr>files = [\<lparr>f_path = ''/photos/a.jpg'', f_hash = ''h'', f_modified_time = 5\<rparr>],
      faces = [face_with 1 SOther, face_with 2 (SText ''[0.0, 1.0]''),
               face_with 3 (SText ''[1.0, 0.0]''), face_with 4 (SText ''[1.0, 0.0]'')],
      persons = [], faces_seq = 4, persons_seq = 0\<rparr>"

section \<open>Properties of the entity store\<close>

lemma faces_merge_persons:
  "faces (merge_persons db k m) =
     map (\<lambda>f. if person_id f = Some m then f\<lparr>person_id := Some k\<rparr> else f) (faces db)"
  by (simp add: merge_persons_def merge_delete_person_def merge_move_faces_def)

lemma persons_merge_persons:
  "persons (merge_persons db k m) = filter (\<lambda>p. pr_id p \<noteq> m) (persons db)"
  by (simp add: merge_persons_def merge_delete_person_def merge_move_faces_def)

lemma moved_count_merge:
  "k \<noteq> m \<Longrightarrow>
   filter (\<lambda>f. person_id f = Some m)
       (map (\<lambda>f. if person_id f = Some m then f\<lparr>person_id := Some k\<rparr> else f) fs) = []"
  by (induction fs) simp_all

lemma moved_count_keep:
  "k \<noteq> m \<Longrightarrow>
   length (filter (\<lambda>f. person_id f = Some k)
       (map (\<lambda>f. if person_id f = Some m then f\<lparr>person_id := Some k\<rparr> else f) fs))
   = length (filter (\<lambda>f. person_id f = Some k) fs) + length (filter (\<lambda>f. person_id f = Some m) fs)"
  by (induction fs) auto

lemma face_ref_ok_persons:
  "persons db' = persons db \<Longrightarrow> face_ref_ok db' = face_ref_ok db"
  by (rule ext) (simp add: face_ref_ok_def person_exists_def split: option.splits)

lemma moved_refs_ok:
  assumes "list_all (face_ref_ok db) fs" "person_exists db k"
  shows "list_all (face_ref_ok db)
           (map (\<lambda>f. if person_id f = Some m then f\<lparr>person_id := Some k\<rparr> else f) fs)"
  using assms by (induction fs) (auto simp: face_ref_ok_def)

lemma moved_refs_ok_after_delete:
  assumes "list_all (face_ref_ok db) fs" "person_exists db k" "k \<noteq> m"
  shows "list_all (face_ref_ok (merge_persons db k m))
           (map (\<lambda>f. if person_id f = Some m then f\<lparr>person_id := Some k\<rparr> else f) fs)"
  using assms
  by (induction fs)
     (auto simp: face_ref_ok_def person_exists_def persons_merge_persons split: option.splits)

text \<open>
  Claim C3. For \<^verbatim>\<open>keep \<noteq> merge\<close> where both persons exist, after
  \<^verbatim>\<open>merge_persons(keep, merge)\<close> no face row has \<^verbatim>\<open>person_id = merge\<close>, the person row
  \<^verbatim>\<open>merge\<close> is gone, and the face count of \<^verbatim>\<open>keep\<close> is the sum of the two counts before
  the merge. In every state the store goes through, statement by statement, the person
  \<^verbatim>\<open>merge\<close> still exists or no face refers to it; and if every face referred to an existing
  person before the merge, that holds in each of these states.
\<close>

theorem merge_persons_integrity:
  assumes "keep \<noteq> merge" and "person_exists db keep" and "person_exists db merge"
  shows "list_all (\<lambda>f. person_id f \<noteq> Some merge) (faces (merge_persons db keep merge))
       \<and> \<not> person_exists (merge_persons db keep merge) merge
       \<and> get_person_face_count (merge_persons db keep merge) keep
           = get_person_face_count db keep + get_person_face_count db merge
       \<and> list_all (\<lambda>s. person_exists s merge \<or> get_person_face_count s merge = 0)
           (merge_persons_states db keep merge)
       \<and> (references_ok db \<longrightarrow> list_all references_ok (merge_persons_states db keep merge))"
proof -
  let ?db' = "merge_persons db keep merge"
  have none_left: "get_person_face_count ?db' merge = 0"
    unfolding get_person_face_count_def faces_merge_persons
    by (simp only: moved_count_merge [OF assms(1)] list.size)
  have a: "list_all (\<lambda>f. person_id f \<noteq> Some merge) (faces ?db')"
    using none_left
    by (simp add: get_person_face_count_def list_all_iff filter_empty_conv)
  have b: "\<not> person_exists ?db' merge"
    by (auto simp: person_exists_def persons_merge_persons)
  have c: "get_person_face_count ?db' keep
             = get_person_face_count db keep + get_person_face_count db merge"
    unfolding get_person_face_count_def faces_merge_persons
    by (rule moved_count_keep [OF assms(1)])
  have mid: "get_person_face_count (merge_move_faces db keep merge) merge = 0"
    using moved_count_merge [OF assms(1), of "faces db"]
    by (simp add: get_person_face_count_def merge_move_faces_def del: filter_map)
  have d: "list_all (\<lambda>s. person_exists s merge \<or> get_person_face_count s merge = 0)
             (merge_persons_states db keep merge)"
    using assms(3) mid none_left by (simp add: merge_persons_states_def)
  have e: "list_all references_ok (merge_persons_states db keep merge)" if ok: "references_ok db"
  proof -
    have "face_ref_ok (merge_move_faces db keep merge) = face_ref_ok db"
      by (rule face_ref_ok_persons) (simp add: merge_move_faces_def)
    then have "references_ok (merge_move_faces db keep merge)"
      using ok assms(2) moved_refs_ok [of db "faces db" keep merge]
      by (simp add: references_ok_def merge_move_faces_def)
    moreover have "references_ok ?db'"
      using ok assms(1,2) moved_refs_ok_after_delete [of db "faces db" keep merge]
      by (simp add: references_ok_def faces_merge_persons)
    ultimately show ?thesis using ok by (simp add: merge_persons_states_def)
  qed
  from a b c d e show ?thesis by blast
qed

theorem merge_persons_integrity_witness:
  "(1::int) \<noteq> 2 \<and> person_exists merge_example_db 1 \<and> person_exists merge_example_db 2
   \<and> references_ok merge_example_db
   \<and> get_person_face_count merge_example_db 1 = 1
   \<and> get_person_face_count merge_example_db 2 = 2
   \<and> list_all (\<lambda>f. person_id f \<noteq> Some 2) (faces (merge_persons merge_example_db 1 2))
   \<and> \<not> person_exists (merge_persons merge_example_db 1 2) 2
   \<and> get_person_face_count (merge_persons merge_example_db 1 2) 1 = 3
   \<and> list_all references_ok (merge_persons_states merge_example_db 1 2)"
proof -
  have h1: "(1::int) \<noteq> 2" by simp
  have h2: "person_exists merge_example_db 1" "person_exists merge_example_db 2"
    by (simp_all add: person_exists_def merge_example_db_def)
  have h3: "references_ok merge_example_db"
    by (simp add: references_ok_def face_ref_ok_def person_exists_def merge_example_db_def)
  have h4: "get_person_face_count merge_example_db 1 = 1"
      "get_person_face_count merge_example_db 2 = 2"
    by (simp_all add: get_person_face_count_def merge_example_db_def)
  from merge_persons_integrity [OF h1 h2] h1 h2 h3 h4 show ?thesis by simp
qed

section \<open>Properties of the scanner\<close>

subsection \<open>The store operations a scan uses\<close>

lemma files_add_faces: "files (add_faces db p found) = files db"
  by (induction found arbitrary: db) simp_all

lemma find_filter_other:
  "q \<noteq> p \<Longrightarrow> find (\<lambda>r. f_path r = q) (filter (\<lambda>r. f_path r \<noteq> p) xs) = find (\<lambda>r. f_path r = q) xs"
  by (induction xs) auto

lemma find_filter_same:
  "find (\<lambda>r. f_path r = p) (filter (\<lambda>r. f_path r \<noteq> p) xs) = None"
  by (induction xs) auto

lemma find_snoc:
  "find P (xs @ [y]) = (case find P xs of None \<Rightarrow> (if P y then Some y else None) | Some x \<Rightarrow> Some x)"
  by (induction xs) simp_all

lemma find_add_file:
  "find (\<lambda>r. f_path r = q) (files (add_file db p hv m)) =
     (if q = p then Some \<lparr>f_path = p, f_hash = hv, f_modified_time = m\<rparr>
      else find (\<lambda>r. f_path r = q) (files db))"
  by (auto simp: add_file_def find_snoc find_filter_other find_filter_same split: option.splits)

lemma file_exists_add_file:
  "file_exists (add_file db p hv m) q m' = (if q = p then m' = m else file_exists db q m')"
  by (auto simp: file_exists_def find_add_file)

lemma file_exists_add_faces:
  "file_exists (add_faces db p found) q m = file_exists db q m"
  by (simp add: file_exists_def files_add_faces)

lemma processed_process_file:
  "processed_files (process_file h args p st) = processed_files st + 1"
  by (simp add: process_file_def Let_def emit_def split: option.splits)

lemma process_file_unchanged:
  "file_exists (store st) p (getmtime h p) \<Longrightarrow>
   process_file h args p st = st\<lparr>trace := trace st @ [Skip p], processed_files := processed_files st + 1\<rparr>"
  by (simp add: process_file_def Let_def emit_def)

lemma file_exists_process_file_other:
  "q \<noteq> p \<Longrightarrow>
   file_exists (store (process_file h args p st)) q m = file_exists (store st) q m"
  by (simp add: process_file_def Let_def emit_def file_exists_add_file file_exists_add_faces
      split: option.splits)

lemma file_exists_process_file_same:
  "file_exists (store (process_file h args p st)) p (getmtime h p)"
  by (simp add: process_file_def Let_def emit_def file_exists_add_file file_exists_add_faces
      split: option.splits)

lemma file_exists_process_file_mono:
  "file_exists (store st) q (getmtime h q) \<Longrightarrow>
   file_exists (store (process_file h args p st)) q (getmtime h q)"
  by (cases "q = p") (simp_all add: file_exists_process_file_other file_exists_process_file_same)

subsection \<open>One step of the loop\<close>

lemma emit_simps:
  "trace (emit a st) = trace st @ [a]"
  "store (emit a st) = store st"
  "processed_files (emit a st) = processed_files st"
  "abort_checks (emit a st) = abort_checks st"
  by (simp_all add: emit_def)

lemma handled_paths_append: "handled_paths (xs @ ys) = handled_paths xs @ handled_paths ys"
  by (induction xs rule: handled_paths.induct) simp_all

lemma report_progress_simps:
  "store (report_progress args t name st) = store st"
  "processed_files (report_progress args t name st) = processed_files st"
  "abort_checks (report_progress args t name st) = abort_checks st"
  "trace (report_progress args t name st) =
     trace st @ (if progress_callback args then [Progress (processed_files st) t name] else [])"
  by (simp_all add: report_progress_def emit_simps)

lemma poll_abort_simps:
  "store (snd (poll_abort args st)) = store st"
  "processed_files (snd (poll_abort args st)) = processed_files st"
  "trace (snd (poll_abort args st)) =
     trace st @ (case abort_check args of None \<Rightarrow> [] | Some flag \<Rightarrow> [AbortCheck (fst (poll_abort args st))])"
  "abort_checks (snd (poll_abort args st)) =
     abort_checks st + (case abort_check args of None \<Rightarrow> 0 | Some flag \<Rightarrow> 1)"
  by (simp_all add: poll_abort_def emit_simps split: option.splits)

lemma poll_abort_True:
  "fst (poll_abort args st) \<Longrightarrow> trace (snd (poll_abort args st)) = trace st @ [AbortCheck True]"
  by (auto simp: poll_abort_def emit_simps split: option.splits)

lemma trace_process_file:
  "trace (process_file h args p st) =
     trace st @
       (if file_exists (store st) p (getmtime h p) then [Skip p]
        else AddFile p (calculate_hash h p) (getmtime h p) #
          (case processor args of None \<Rightarrow> []
           | Some process_image \<Rightarrow>
               ProcessImage p #
                 (case process_image p of None \<Rightarrow> []
                  | Some found \<Rightarrow> if found \<noteq> [] then [AddFaces p (length found)] else [])))"
  by (simp add: process_file_def Let_def emit_simps split: option.splits)

lemma cancelled_process_file: "cancelled (process_file h args p st) = cancelled st"
  by (auto simp: cancelled_def trace_process_file split: option.splits)

lemma abort_count_process_file:
  "filter is_abort_check (trace (process_file h args p st)) = filter is_abort_check (trace st)"
  by (simp add: trace_process_file split: option.splits)

lemma handled_process_file:
  "handled_paths (trace (process_file h args p st)) = handled_paths (trace st) @ [p]"
  by (simp add: trace_process_file handled_paths_append split: option.splits)

lemma touches_process_file_other:
  "q \<noteq> p \<Longrightarrow>
   filter (touches p) (trace (process_file h args q st)) = filter (touches p) (trace st)"
  by (simp add: trace_process_file split: option.splits)

text \<open>One iteration of the loop, in the three ways it can go.\<close>

lemma scan_loop_break:
  "fst (poll_abort args (report_progress args t (basename p) st)) \<Longrightarrow>
   scan_loop h args t (p # ps) st = snd (poll_abort args (report_progress args t (basename p) st))"
  by (cases "poll_abort args (report_progress args t (basename p) st)") auto

lemma scan_loop_continue:
  "\<not> fst (poll_abort args (report_progress args t (basename p) st)) \<Longrightarrow>
   scan_loop h args t (p # ps) st =
     scan_loop h args t ps
       (process_file h args p (snd (poll_abort args (report_progress args t (basename p) st))))"
  by (cases "poll_abort args (report_progress args t (basename p) st)") auto

lemma trace_scan_loop_prefix: "\<exists>ext. trace (scan_loop h args t ps st) = trace st @ ext"
proof (induction ps arbitrary: st)
  case Nil
  show ?case by simp
next
  case (Cons p ps)
  let ?st' = "snd (poll_abort args (report_progress args t (basename p) st))"
  have pre: "\<exists>e. trace ?st' = trace st @ e"
    by (simp add: poll_abort_simps report_progress_simps)
  show ?case
  proof (cases "fst (poll_abort args (report_progress args t (basename p) st))")
    case True
    with pre show ?thesis by (simp only: scan_loop_break)
  next
    case False
    from pre obtain e where "trace (process_file h args p ?st') = trace st @ e"
      by (auto simp: trace_process_file)
    with Cons.IH [of "process_file h args p ?st'"] scan_loop_continue [OF False, of h ps]
    show ?thesis by auto
  qed
qed

subsection \<open>Induction over the loop\<close>

lemma scan_loop_step_induct [case_names Nil Break Continue]:
  assumes "\<And>st. P [] st"
    and "\<And>p ps st. fst (poll_abort args (report_progress args t (basename p) st)) \<Longrightarrow> P (p # ps) st"
    and "\<And>p ps st.
           \<not> fst (poll_abort args (report_progress args t (basename p) st)) \<Longrightarrow>
           P ps (process_file h args p
                   (snd (poll_abort args (report_progress args t (basename p) st)))) \<Longrightarrow>
           P (p # ps) st"
  shows "P ps st"
  using assms by (induction ps arbitrary: st) blast+

lemma cancelled_report_progress:
  "cancelled (report_progress args t name st) = cancelled st"
  by (simp add: cancelled_def report_progress_simps)

lemma cancelled_poll_abort:
  "cancelled (snd (poll_abort args st)) = (cancelled st \<or> fst (poll_abort args st))"
  by (auto simp: cancelled_def poll_abort_def emit_simps split: option.splits)

lemmas step_simps =
  poll_abort_simps(1,2) report_progress_simps(1,2,3) processed_process_file
  cancelled_process_file cancelled_poll_abort cancelled_report_progress

lemma processed_files_scan_loop:
  "processed_files st \<le> processed_files (scan_loop h args t ps st)
   \<and> processed_files (scan_loop h args t ps st) \<le> processed_files st + length ps
   \<and> (\<not> cancelled st \<longrightarrow>
        (cancelled (scan_loop h args t ps st)
           \<longrightarrow> processed_files (scan_loop h args t ps st) < processed_files st + length ps)
      \<and> (\<not> cancelled (scan_loop h args t ps st)
           \<longrightarrow> processed_files (scan_loop h args t ps st) = processed_files st + length ps))"
proof (induction ps st rule: scan_loop_step_induct [where h = h and args = args and t = t])
  case (Nil st)
  show ?case by simp
next
  case (Break p ps st)
  then show ?case by (simp add: scan_loop_break step_simps del: scan_loop.simps)
next
  case (Continue p ps st)
  then show ?case by (simp add: scan_loop_continue step_simps del: scan_loop.simps)
qed

lemma abort_count_report_progress:
  "filter is_abort_check (trace (report_progress args t name st)) = filter is_abort_check (trace st)"
  by (simp add: report_progress_simps)

lemma abort_count_poll_abort:
  "length (filter is_abort_check (trace (snd (poll_abort args st))))
     \<le> length (filter is_abort_check (trace st)) + 1"
  by (simp add: poll_abort_simps split: option.splits)

lemma abort_count_scan_loop:
  "length (filter is_abort_check (trace (scan_loop h args t ps st)))
     \<le> length (filter is_abort_check (trace st)) + length ps"
proof (induction ps st rule: scan_loop_step_induct [where h = h and args = args and t = t])
  case (Nil st)
  show ?case by simp
next
  case (Break p ps st)
  then show ?case
    using abort_count_poll_abort [of args "report_progress args t (basename p) st"]
    by (simp add: scan_loop_break abort_count_report_progress del: scan_loop.simps)
next
  case (Continue p ps st)
  then show ?case
    using abort_count_poll_abort [of args "report_progress args t (basename p) st"]
    by (simp add: scan_loop_continue abort_count_report_progress abort_count_process_file
        del: scan_loop.simps)
qed

lemma handled_report_progress:
  "handled_paths (trace (report_progress args t name st)) = handled_paths (trace st)"
  by (simp add: report_progress_simps handled_paths_append)

lemma handled_poll_abort:
  "handled_paths (trace (snd (poll_abort args st))) = handled_paths (trace st)"
  by (simp add: poll_abort_simps handled_paths_append split: option.splits)

lemma handled_scan_loop:
  "handled_paths (trace (scan_loop h args t ps st))
     = handled_paths (trace st)
       @ take (processed_files (scan_loop h args t ps st) - processed_files st) ps"
proof (induction ps st rule: scan_loop_step_induct [where h = h and args = args and t = t])
  case (Nil st)
  show ?case by simp
next
  case (Break p ps st)
  then show ?case
    by (simp add: scan_loop_break handled_poll_abort handled_report_progress step_simps
        del: scan_loop.simps)
next
  case (Continue p ps st)
  let ?st' = "process_file h args p (snd (poll_abort args (report_progress args t (basename p) st)))"
  have n: "processed_files ?st' = processed_files st + 1" by (simp add: step_simps)
  define k where "k = processed_files (scan_loop h args t ps ?st') - (processed_files st + 1)"
  have "processed_files ?st' \<le> processed_files (scan_loop h args t ps ?st')"
    using processed_files_scan_loop [of ?st' h args t ps] by blast
  then have k: "processed_files (scan_loop h args t ps ?st') = processed_files st + 1 + k"
    unfolding n k_def by simp
  from Continue show ?case
    by (simp add: scan_loop_continue handled_process_file handled_poll_abort
        handled_report_progress n k del: scan_loop.simps)
qed

lemma last_actions_when_cancelled:
  assumes "progress_callback args" and "\<not> cancelled st" and "cancelled (scan_loop h args t ps st)"
  shows "\<exists>pre. trace (scan_loop h args t ps st)
           = pre @ [Progress (processed_files (scan_loop h args t ps st)) t
                      (basename (ps ! (processed_files (scan_loop h args t ps st) - processed_files st))),
                    AbortCheck True]"
  using assms(2,3)
proof (induction ps st rule: scan_loop_step_induct [where h = h and args = args and t = t])
  case (Nil st)
  then show ?case by simp
next
  case (Break p ps st)
  then show ?case
    using poll_abort_True [of args "report_progress args t (basename p) st"] assms(1)
    by (simp add: scan_loop_break report_progress_simps step_simps del: scan_loop.simps)
next
  case (Continue p ps st)
  let ?st' = "process_file h args p (snd (poll_abort args (report_progress args t (basename p) st)))"
  have n: "processed_files ?st' = processed_files st + 1" by (simp add: step_simps)
  define k where "k = processed_files (scan_loop h args t ps ?st') - (processed_files st + 1)"
  have "processed_files ?st' \<le> processed_files (scan_loop h args t ps ?st')"
    using processed_files_scan_loop [of ?st' h args t ps] by blast
  then have k: "processed_files (scan_loop h args t ps ?st') = processed_files st + 1 + k"
    unfolding n k_def by simp
  have c: "\<not> cancelled ?st'" using Continue.hyps Continue.prems(1) by (simp add: step_simps)
  from Continue.IH [OF c] Continue.prems(2) Continue.hyps show ?case
    by (simp add: scan_loop_continue n k del: scan_loop.simps)
qed

lemma iteration_starts_with_progress_then_check:
  assumes "progress_callback args" and "abort_check args = Some flag"
  shows "\<exists>rest. trace (scan_loop h args t (p # ps) st)
           = trace st @ Progress (processed_files st) t (basename p)
               # AbortCheck (flag (abort_checks st)) # rest"
proof -
  let ?st1 = "report_progress args t (basename p) st"
  let ?st2 = "snd (poll_abort args ?st1)"
  have t2: "trace ?st2 = trace st @ [Progress (processed_files st) t (basename p),
                                      AbortCheck (flag (abort_checks st))]"
    using assms by (simp add: poll_abort_def report_progress_def emit_simps)
  show ?thesis
  proof (cases "fst (poll_abort args ?st1)")
    case True
    then show ?thesis using t2 by (simp add: scan_loop_break del: scan_loop.simps)
  next
    case False
    obtain e where "trace (scan_loop h args t ps (process_file h args p ?st2))
        = trace (process_file h args p ?st2) @ e"
      using trace_scan_loop_prefix by blast
    moreover obtain e' where "trace (process_file h args p ?st2) = trace ?st2 @ e'"
      by (simp add: trace_process_file)
    ultimately show ?thesis using t2 False by (simp add: scan_loop_continue del: scan_loop.simps)
  qed
qed

subsection \<open>The store after the loop\<close>

lemma find_process_file_other:
  "q \<noteq> p \<Longrightarrow>
   find (\<lambda>r. f_path r = p) (files (store (process_file h args q st)))
     = find (\<lambda>r. f_path r = p) (files (store st))"
  by (simp add: process_file_def Let_def emit_simps find_add_file files_add_faces
      split: option.splits)

lemma find_process_file_new:
  "\<not> file_exists (store st) p (getmtime h p) \<Longrightarrow>
   find (\<lambda>r. f_path r = p) (files (store (process_file h args p st)))
     = Some \<lparr>f_path = p, f_hash = calculate_hash h p, f_modified_time = getmtime h p\<rparr>"
  by (simp add: process_file_def Let_def emit_simps find_add_file files_add_faces
      split: option.splits)

lemma file_exists_scan_loop_mono:
  "file_exists (store st) q (getmtime h q) \<Longrightarrow>
   file_exists (store (scan_loop h args t ps st)) q (getmtime h q)"
proof (induction ps st rule: scan_loop_step_induct [where h = h and args = args and t = t])
  case (Nil st)
  then show ?case by simp
next
  case (Break p ps st)
  then show ?case by (simp add: scan_loop_break step_simps del: scan_loop.simps)
next
  case (Continue p ps st)
  then show ?case
    by (simp add: scan_loop_continue step_simps file_exists_process_file_mono
        del: scan_loop.simps)
qed

lemma all_files_recorded:
  "\<not> cancelled (scan_loop h args t ps st) \<Longrightarrow>
   \<forall>p \<in> set ps. file_exists (store (scan_loop h args t ps st)) p (getmtime h p)"
proof (induction ps st rule: scan_loop_step_induct [where h = h and args = args and t = t])
  case (Nil st)
  then show ?case by simp
next
  case (Break p ps st)
  then show ?case by (simp add: scan_loop_break step_simps del: scan_loop.simps)
next
  case (Continue p ps st)
  let ?st' = "process_file h args p (snd (poll_abort args (report_progress args t (basename p) st)))"
  have "file_exists (store (scan_loop h args t ps ?st')) p (getmtime h p)"
    by (rule file_exists_scan_loop_mono) (rule file_exists_process_file_same)
  with Continue show ?case by (simp add: scan_loop_continue del: scan_loop.simps)
qed

lemma touches_report_progress:
  "filter (touches p) (trace (report_progress args t name st)) = filter (touches p) (trace st)"
  by (simp add: report_progress_simps)

lemma touches_poll_abort:
  "filter (touches p) (trace (snd (poll_abort args st))) = filter (touches p) (trace st)"
  by (simp add: poll_abort_simps split: option.splits)

lemma touches_process_file_unchanged:
  "file_exists (store st) p (getmtime h p) \<Longrightarrow>
   filter (touches q) (trace (process_file h args p st)) = filter (touches q) (trace st)"
  by (simp add: process_file_unchanged)

lemma unchanged_file_not_touched:
  "file_exists (store st) p (getmtime h p) \<Longrightarrow>
   filter (touches p) (trace (scan_loop h args t ps st)) = filter (touches p) (trace st)"
proof (induction ps st rule: scan_loop_step_induct [where h = h and args = args and t = t])
  case (Nil st)
  then show ?case by simp
next
  case (Break q ps st)
  then show ?case
    by (simp add: scan_loop_break touches_poll_abort touches_report_progress del: scan_loop.simps)
next
  case (Continue q ps st)
  let ?st2 = "snd (poll_abort args (report_progress args t (basename q) st))"
  have ex2: "file_exists (store ?st2) p (getmtime h p)" using Continue.prems by (simp add: step_simps)
  have "filter (touches p) (trace (process_file h args q ?st2)) = filter (touches p) (trace st)"
  proof (cases "q = p")
    case True
    with ex2 show ?thesis
      by (simp add: touches_process_file_unchanged touches_poll_abort touches_report_progress)
  next
    case False
    then show ?thesis
      by (simp add: touches_process_file_other touches_poll_abort touches_report_progress)
  qed
  moreover have "file_exists (store (process_file h args q ?st2)) p (getmtime h p)"
    using ex2 by (rule file_exists_process_file_mono)
  ultimately show ?case
    using Continue.IH Continue.hyps by (simp add: scan_loop_continue del: scan_loop.simps)
qed

lemma unchanged_files_rescan:
  "\<forall>p \<in> set ps. file_exists (store st) p (getmtime h p) \<Longrightarrow>
   store (scan_loop h args t ps st) = store st
   \<and> filter is_process_image (trace (scan_loop h args t ps st)) = filter is_process_image (trace st)"
proof (induction ps st rule: scan_loop_step_induct [where h = h and args = args and t = t])
  case (Nil st)
  then show ?case by simp
next
  case (Break p ps st)
  then show ?case
    by (simp add: scan_loop_break step_simps poll_abort_simps report_progress_simps
        split: option.splits del: scan_loop.simps)
next
  case (Continue p ps st)
  let ?st2 = "snd (poll_abort args (report_progress args t (basename p) st))"
  have "file_exists (store ?st2) p (getmtime h p)" using Continue.prems by (simp add: step_simps)
  then have u: "process_file h args p ?st2
      = ?st2\<lparr>trace := trace ?st2 @ [Skip p], processed_files := processed_files ?st2 + 1\<rparr>"
    by (rule process_file_unchanged)
  have s: "store (process_file h args p ?st2) = store st"
    unfolding u by (simp add: step_simps)
  have f: "filter is_process_image (trace (process_file h args p ?st2))
      = filter is_process_image (trace st)"
    unfolding u by (simp add: poll_abort_simps report_progress_simps split: option.splits)
  from Continue.IH Continue.prems Continue.hyps show ?case
    by (simp add: scan_loop_continue s f del: scan_loop.simps)
qed

lemma row_kept:
  "find (\<lambda>r. f_path r = p) (files (store st))
     = Some \<lparr>f_path = p, f_hash = hv, f_modified_time = getmtime h p\<rparr> \<Longrightarrow>
   find (\<lambda>r. f_path r = p) (files (store (scan_loop h args t ps st)))
     = Some \<lparr>f_path = p, f_hash = hv, f_modified_time = getmtime h p\<rparr>"
proof (induction ps st rule: scan_loop_step_induct [where h = h and args = args and t = t])
  case (Nil st)
  then show ?case by simp
next
  case (Break q ps st)
  then show ?case by (simp add: scan_loop_break step_simps del: scan_loop.simps)
next
  case (Continue q ps st)
  let ?st2 = "snd (poll_abort args (report_progress args t (basename q) st))"
  have r2: "find (\<lambda>r. f_path r = p) (files (store ?st2))
     = Some \<lparr>f_path = p, f_hash = hv, f_modified_time = getmtime h p\<rparr>"
    using Continue.prems by (simp add: step_simps)
  have "find (\<lambda>r. f_path r = p) (files (store (process_file h args q ?st2)))
     = Some \<lparr>f_path = p, f_hash = hv, f_modified_time = getmtime h p\<rparr>"
  proof (cases "q = p")
    case True
    have "file_exists (store ?st2) p (getmtime h p)" using r2 by (simp add: file_exists_def)
    then show ?thesis using r2 True by (simp add: process_file_unchanged)
  next
    case False
    then show ?thesis using r2 by (simp add: find_process_file_other)
  qed
  with Continue.IH Continue.hyps show ?case by (simp add: scan_loop_continue del: scan_loop.simps)
qed

lemma handled_row_written:
  "p \<in> set (take (processed_files (scan_loop h args t ps st) - processed_files st) ps) \<Longrightarrow>
   \<not> file_exists (store st) p (getmtime h p) \<Longrightarrow>
   find (\<lambda>r. f_path r = p) (files (store (scan_loop h args t ps st)))
     = Some \<lparr>f_path = p, f_hash = calculate_hash h p, f_modified_time = getmtime h p\<rparr>
   \<and> AddFile p (calculate_hash h p) (getmtime h p) \<in> set (trace (scan_loop h args t ps st))"
proof (induction ps st rule: scan_loop_step_induct [where h = h and args = args and t = t])
  case (Nil st)
  then show ?case by simp
next
  case (Break q ps st)
  then show ?case by (simp add: scan_loop_break step_simps del: scan_loop.simps)
next
  case (Continue q ps st)
  let ?st2 = "snd (poll_abort args (report_progress args t (basename q) st))"
  let ?st' = "process_file h args q ?st2"
  let ?r = "scan_loop h args t ps ?st'"
  have r: "scan_loop h args t (q # ps) st = ?r"
    using Continue.hyps by (rule scan_loop_continue)
  have n: "processed_files ?st' = processed_files st + 1" by (simp add: step_simps)
  define k where "k = processed_files ?r - (processed_files st + 1)"
  have "processed_files ?st' \<le> processed_files ?r"
    using processed_files_scan_loop [of ?st' h args t ps] by blast
  then have k: "processed_files ?r = processed_files st + 1 + k"
    unfolding n k_def by simp
  have mem: "p = q \<or> p \<in> set (take k ps)"
    using Continue.prems(1) unfolding r k by simp
  have ne2: "\<not> file_exists (store ?st2) p (getmtime h p)"
    using Continue.prems(2) by (simp add: step_simps)
  show ?case
  proof (cases "q = p")
    case True
    have row: "find (\<lambda>r. f_path r = p) (files (store (process_file h args p ?st2)))
       = Some \<lparr>f_path = p, f_hash = calculate_hash h p, f_modified_time = getmtime h p\<rparr>"
      using ne2 by (rule find_process_file_new)
    have "AddFile p (calculate_hash h p) (getmtime h p) \<in> set (trace (process_file h args p ?st2))"
      using ne2 by (simp add: trace_process_file)
    moreover obtain e where "trace (scan_loop h args t ps (process_file h args p ?st2))
        = trace (process_file h args p ?st2) @ e"
      using trace_scan_loop_prefix by blast
    ultimately have "AddFile p (calculate_hash h p) (getmtime h p)
        \<in> set (trace (scan_loop h args t ps (process_file h args p ?st2)))"
      by simp
    with row_kept [OF row, of args t ps] True show ?thesis unfolding r by simp
  next
    case False
    then have "\<not> file_exists (store ?st') p (getmtime h p)"
      using ne2 by (simp add: file_exists_process_file_other)
    moreover have "p \<in> set (take (processed_files ?r - processed_files ?st') ps)"
      using mem False unfolding n k by simp
    ultimately show ?thesis using Continue.IH unfolding r by simp
  qed
qed

subsection \<open>The whole scan\<close>

lemma scan_directory_existing:
  "path_exists h (root_path args) \<Longrightarrow>
   scan_directory h args db =
     report_progress args (length (image_files h (root_path args))) ''Complete''
       (scan_loop h args (length (image_files h (root_path args)))
          (image_files h (root_path args)) (start_state db))"
  by (simp add: scan_directory_def Let_def)

lemma start_state_simps:
  "store (start_state db) = db" "processed_files (start_state db) = 0"
  "trace (start_state db) = []" "abort_checks (start_state db) = 0"
  "\<not> cancelled (start_state db)"
  by (simp_all add: start_state_def cancelled_def)

text \<open>
  Claim C2, as amended. After the per-file loop of a scan ends, whether it ran to completion
  or was stopped by the cancellation signal, exactly one more progress event is emitted,
  with the completion marker. Its count is the number of files the loop got through
  (skipped or processed), not always the total: it is the total when the scan was not
  cancelled, and less than the total when it was.
\<close>

theorem final_progress_event:
  assumes "path_exists h (root_path args)" and "progress_callback args"
  shows "trace (scan_directory h args db)
           = trace (scan_loop h args (length (image_files h (root_path args)))
                      (image_files h (root_path args)) (start_state db))
             @ [Progress (processed_files (scan_directory h args db))
                  (length (image_files h (root_path args))) ''Complete'']
       \<and> processed_files (scan_directory h args db) \<le> length (image_files h (root_path args))
       \<and> (if cancelled (scan_directory h args db)
          then processed_files (scan_directory h args db) < length (image_files h (root_path args))
          else processed_files (scan_directory h args db) = length (image_files h (root_path args)))"
proof -
  let ?fs = "image_files h (root_path args)"
  let ?r = "scan_loop h args (length ?fs) ?fs (start_state db)"
  have sd: "scan_directory h args db = report_progress args (length ?fs) ''Complete'' ?r"
    using assms(1) by (rule scan_directory_existing)
  have c: "cancelled (scan_directory h args db) = cancelled ?r"
    unfolding sd by (rule cancelled_report_progress)
  have n: "processed_files (scan_directory h args db) = processed_files ?r"
    unfolding sd by (simp add: report_progress_simps)
  have t: "trace (scan_directory h args db)
      = trace ?r @ [Progress (processed_files ?r) (length ?fs) ''Complete'']"
    unfolding sd using assms(2) by (simp add: report_progress_simps)
  from processed_files_scan_loop [of "start_state db" h args "length ?fs" ?fs]
  show ?thesis unfolding c n t by (simp add: start_state_simps)
qed

theorem final_progress_event_witness:
  "path_exists example_host (root_path (example_args (\<lambda>k. k = 1)))
   \<and> progress_callback (example_args (\<lambda>k. k = 1))
   \<and> cancelled (scan_directory example_host (example_args (\<lambda>k. k = 1)) empty_db)
   \<and> length (image_files example_host (root_path (example_args (\<lambda>k. k = 1)))) = 2
   \<and> processed_files (scan_directory example_host (example_args (\<lambda>k. k = 1)) empty_db) < 2
   \<and> trace (scan_directory example_host (example_args (\<lambda>k. k = 1)) empty_db)
       = trace (scan_loop example_host (example_args (\<lambda>k. k = 1)) 2
                 (image_files example_host (root_path (example_args (\<lambda>k. k = 1))))
                 (start_state empty_db))
         @ [Progress (processed_files (scan_directory example_host (example_args (\<lambda>k. k = 1)) empty_db))
              2 ''Complete'']"
proof -
  have h1: "path_exists example_host (root_path (example_args (\<lambda>k. k = 1)))" by code_simp
  have h2: "progress_callback (example_args (\<lambda>k. k = 1))" by code_simp
  have h3: "cancelled (scan_directory example_host (example_args (\<lambda>k. k = 1)) empty_db)"
    by code_simp
  have h4: "length (image_files example_host (root_path (example_args (\<lambda>k. k = 1)))) = 2"
    by code_simp
  from final_progress_event [OF h1 h2, of empty_db] h1 h2 h3 h4 show ?thesis by simp
qed

text \<open>
  The claim as stated (the count of the final event equals the total, cancelled or not)
  fails: cancelled at the first of two files, the final event has count 0.
\<close>

theorem final_progress_count_counterexample:
  "cancelled (scan_directory example_host (example_args (\<lambda>k. True)) empty_db)
   \<and> length (image_files example_host ''/photos'') = 2
   \<and> trace (scan_directory example_host (example_args (\<lambda>k. True)) empty_db)
       = [Progress 0 2 ''a.jpg'', AbortCheck True, Progress 0 2 ''Complete'']
   \<and> last (trace (scan_directory example_host (example_args (\<lambda>k. True)) empty_db))
       \<noteq> Progress 2 2 ''Complete''"
  by code_simp

text \<open>
  Claim C10. With a progress callback and an abort check: every iteration first emits the
  progress event of its file and then calls the abort check; the abort check is called
  at most once per enumerated file; and when the scan is cancelled, the last per-file
  progress event names the file at the index the loop stopped at, which is not among the
  files that got past the abort check (they are the files before it), so for an
  enumeration without repeated paths that file is not processed.
\<close>

theorem progress_before_abort_check:
  assumes "path_exists h (root_path args)" and "progress_callback args"
    and "abort_check args = Some flag"
  shows "(\<exists>rest. trace (scan_loop h args t (p # ps) st)
            = trace st @ Progress (processed_files st) t (basename p)
                # AbortCheck (flag (abort_checks st)) # rest)
       \<and> length (filter is_abort_check (trace (scan_directory h args db)))
            \<le> length (image_files h (root_path args))
       \<and> (cancelled (scan_directory h args db) \<longrightarrow>
            processed_files (scan_directory h args db) < length (image_files h (root_path args))
          \<and> (\<exists>pre. trace (scan_directory h args db)
                = pre @ [Progress (processed_files (scan_directory h args db))
                           (length (image_files h (root_path args)))
                           (basename (image_files h (root_path args)
                                        ! processed_files (scan_directory h args db))),
                         AbortCheck True,
                         Progress (processed_files (scan_directory h args db))
                           (length (image_files h (root_path args))) ''Complete''])
          \<and> handled_paths (trace (scan_directory h args db))
                = take (processed_files (scan_directory h args db)) (image_files h (root_path args))
          \<and> (distinct (image_files h (root_path args)) \<longrightarrow>
                image_files h (root_path args) ! processed_files (scan_directory h args db)
                  \<notin> set (handled_paths (trace (scan_directory h args db)))))"
proof -
  let ?fs = "image_files h (root_path args)"
  let ?r = "scan_loop h args (length ?fs) ?fs (start_state db)"
  let ?n = "processed_files (scan_directory h args db)"
  have sd: "scan_directory h args db = report_progress args (length ?fs) ''Complete'' ?r"
    using assms(1) by (rule scan_directory_existing)
  have c: "cancelled (scan_directory h args db) = cancelled ?r"
    unfolding sd by (rule cancelled_report_progress)
  have n: "?n = processed_files ?r"
    unfolding sd by (simp add: report_progress_simps)
  have t: "trace (scan_directory h args db)
      = trace ?r @ [Progress (processed_files ?r) (length ?fs) ''Complete'']"
    unfolding sd using assms(2) by (simp add: report_progress_simps)
  have a: "\<exists>rest. trace (scan_loop h args t (p # ps) st)
            = trace st @ Progress (processed_files st) t (basename p)
                # AbortCheck (flag (abort_checks st)) # rest"
    using assms(2,3) by (rule iteration_starts_with_progress_then_check)
  have b: "length (filter is_abort_check (trace (scan_directory h args db))) \<le> length ?fs"
    using abort_count_scan_loop [of h args "length ?fs" ?fs "start_state db"]
    unfolding t by (simp add: start_state_simps)
  have hp: "handled_paths (trace (scan_directory h args db)) = take ?n ?fs"
    using handled_scan_loop [of h args "length ?fs" ?fs "start_state db"]
    unfolding t n by (simp add: start_state_simps handled_paths_append)
  have d: "processed_files (scan_directory h args db) < length ?fs
          \<and> (\<exists>pre. trace (scan_directory h args db)
                = pre @ [Progress ?n (length ?fs) (basename (?fs ! ?n)), AbortCheck True,
                         Progress ?n (length ?fs) ''Complete''])
          \<and> handled_paths (trace (scan_directory h args db)) = take ?n ?fs
          \<and> (distinct ?fs \<longrightarrow> ?fs ! ?n \<notin> set (handled_paths (trace (scan_directory h args db))))"
    if cn: "cancelled (scan_directory h args db)"
  proof -
    have cr: "cancelled ?r" using cn c by simp
    have lt: "?n < length ?fs"
      using processed_files_scan_loop [of "start_state db" h args "length ?fs" ?fs] cr
      unfolding n by (simp add: start_state_simps)
    obtain pre where "trace ?r = pre @ [Progress (processed_files ?r) (length ?fs)
                      (basename (?fs ! (processed_files ?r - processed_files (start_state db)))),
                    AbortCheck True]"
      using last_actions_when_cancelled [OF assms(2) _ cr] start_state_simps(5) by blast
    then have tr: "\<exists>pre. trace (scan_directory h args db)
                = pre @ [Progress ?n (length ?fs) (basename (?fs ! ?n)), AbortCheck True,
                         Progress ?n (length ?fs) ''Complete'']"
      unfolding t n by (simp add: start_state_simps)
    have "?fs ! ?n \<notin> set (take ?n ?fs)" if "distinct ?fs"
    proof
      assume "?fs ! ?n \<in> set (take ?n ?fs)"
      then obtain i where i: "i < ?n" "take ?n ?fs ! i = ?fs ! ?n"
        using lt by (auto simp: in_set_conv_nth)
      then have "?fs ! i = ?fs ! ?n" by simp
      with that i(1) lt show False by (simp add: nth_eq_iff_index_eq)
    qed
    with lt tr hp show ?thesis by simp
  qed
  from a b d show ?thesis by blast
qed

theorem progress_before_abort_check_witness:
  "path_exists example_host (root_path (example_args (\<lambda>k. k = 1)))
   \<and> progress_callback (example_args (\<lambda>k. k = 1))
   \<and> abort_check (example_args (\<lambda>k. k = 1)) = Some (\<lambda>k. k = 1)
   \<and> cancelled (scan_directory example_host (example_args (\<lambda>k. k = 1)) empty_db)
   \<and> distinct (image_files example_host ''/photos'')
   \<and> image_files example_host ''/photos'' ! 1 = ''/photos/b.PNG''
   \<and> processed_files (scan_directory example_host (example_args (\<lambda>k. k = 1)) empty_db) = 1
   \<and> length (filter is_abort_check
        (trace (scan_directory example_host (example_args (\<lambda>k. k = 1)) empty_db))) \<le> 2
   \<and> handled_paths (trace (scan_directory example_host (example_args (\<lambda>k. k = 1)) empty_db))
       = [''/photos/a.jpg'']
   \<and> ''/photos/b.PNG''
       \<notin> set (handled_paths (trace (scan_directory example_host (example_args (\<lambda>k. k = 1)) empty_db)))"
proof -
  let ?args = "example_args (\<lambda>k. k = 1)"
  have h1: "path_exists example_host (root_path ?args)" by code_simp
  have h2: "progress_callback ?args" by code_simp
  have h3: "abort_check ?args = Some (\<lambda>k. k = 1)" by (simp add: example_args_def)
  have h4: "cancelled (scan_directory example_host ?args empty_db)" by code_simp
  have h5: "distinct (image_files example_host ''/photos'')" by code_simp
  have h6: "image_files example_host ''/photos'' = [''/photos/a.jpg'', ''/photos/b.PNG'']"
    by code_simp
  have h7: "processed_files (scan_directory example_host ?args empty_db) = 1" by code_simp
  have r: "root_path ?args = ''/photos''" by (simp add: example_args_def)
  from progress_before_abort_check [OF h1 h2 h3, of "0" "''x''" "[]" "start_state empty_db" empty_db]
    h1 h2 h3 h4 h5 h7
  show ?thesis unfolding r h6 by simp
qed

text \<open>
  When a second scan enumerates exactly the files of a first scan that was not cancelled,
  with the same modification times, it leaves the store as it is and never calls
  \<^verbatim>\<open>process_image\<close>.
\<close>

lemma rescan_same_enumeration:
  assumes "path_exists h (root_path args)"
    and "\<not> cancelled (scan_directory h args db)"
    and "image_files h2 (root_path args2) = image_files h (root_path args)"
    and "\<forall>p \<in> set (image_files h (root_path args)). getmtime h2 p = getmtime h p"
  shows "store (scan_directory h2 args2 (store (scan_directory h args db)))
           = store (scan_directory h args db)
       \<and> length (files (store (scan_directory h2 args2 (store (scan_directory h args db)))))
           = length (files (store (scan_directory h args db)))
       \<and> length (faces (store (scan_directory h2 args2 (store (scan_directory h args db)))))
           = length (faces (store (scan_directory h args db)))
       \<and> filter is_process_image
            (trace (scan_directory h2 args2 (store (scan_directory h args db)))) = []"
proof -
  let ?fs = "image_files h (root_path args)"
  let ?r = "scan_loop h args (length ?fs) ?fs (start_state db)"
  let ?db1 = "store (scan_directory h args db)"
  have sd: "scan_directory h args db = report_progress args (length ?fs) ''Complete'' ?r"
    using assms(1) by (rule scan_directory_existing)
  have db1: "?db1 = store ?r" unfolding sd by (simp add: report_progress_simps)
  have "\<not> cancelled ?r" using assms(2) unfolding sd by (simp add: cancelled_report_progress)
  then have rec: "\<forall>p \<in> set ?fs. file_exists ?db1 p (getmtime h p)"
    unfolding db1 by (rule all_files_recorded)
  have rec2: "\<forall>p \<in> set ?fs. file_exists (store (start_state ?db1)) p (getmtime h2 p)"
    using rec assms(4) by (simp add: start_state_simps)
  have second: "store (scan_directory h2 args2 ?db1) = ?db1
      \<and> filter is_process_image (trace (scan_directory h2 args2 ?db1)) = []"
  proof (cases "path_exists h2 (root_path args2)")
    case False
    then show ?thesis by (simp add: scan_directory_def start_state_simps)
  next
    case True
    from unchanged_files_rescan [OF rec2, of args2 "length ?fs"]
    show ?thesis
      unfolding scan_directory_existing [OF True] assms(3)
      by (simp add: report_progress_simps start_state_simps)
  qed
  then show ?thesis by simp
qed

text \<open>
  Claim C7 says that a second scan over a directory whose files are unchanged leaves the
  numbers of file rows and face rows as they were after the first scan, without a call of
  the processor for the unchanged files. The code on an album with one photo in which the
  processor finds a face: the first scan, which is not cancelled, leaves one file row and
  one face row and writes the thumbnail of the face under the root. The second scan skips
  the photo, which is unchanged, without giving it to the processor; but it enumerates
  the thumbnail, adds a file row for it and gives it to the processor. The file rows go
  from 1 to 2.
\<close>

theorem rescan_enumerates_thumbnail:
  "image_files album_host ''/album'' = [''/album/c.jpg'']
   \<and> \<not> cancelled (scan_directory album_host album_args empty_db)
   \<and> length (files (store (scan_directory album_host album_args empty_db))) = 1
   \<and> length (faces (store (scan_directory album_host album_args empty_db))) = 1
   \<and> thumbnails_written album_args (scan_directory album_host album_args empty_db)
       = [''/album/.faceframe/thumbnails/0123456789ab.jpg'']
   \<and> image_files
        (host_after_scan album_host album_args (scan_directory album_host album_args empty_db))
        ''/album''
       = [''/album/c.jpg'', ''/album/.faceframe/thumbnails/0123456789ab.jpg'']
   \<and> trace (scan_directory
              (host_after_scan album_host album_args
                 (scan_directory album_host album_args empty_db))
              album_args (store (scan_directory album_host album_args empty_db)))
       = [Progress 0 2 ''c.jpg'', AbortCheck False, Skip ''/album/c.jpg'',
          Progress 1 2 ''0123456789ab.jpg'', AbortCheck False,
          AddFile ''/album/.faceframe/thumbnails/0123456789ab.jpg''
            ''0cc175b9c0f1b6a831c399e269772661'' 300,
          ProcessImage ''/album/.faceframe/thumbnails/0123456789ab.jpg'',
          Progress 2 2 ''Complete'']
   \<and> length (files (store (scan_directory
              (host_after_scan album_host album_args
                 (scan_directory album_host album_args empty_db))
              album_args (store (scan_directory album_host album_args empty_db))))) = 2
   \<and> length (faces (store (scan_directory
              (host_after_scan album_host album_args
                 (scan_directory album_host album_args empty_db))
              album_args (store (scan_directory album_host album_args empty_db))))) = 1"
  by code_simp

text \<open>
  Claim C9. If the bytes of a file cannot be read, and the file gets past the abort check
  of a scan that does not find it unchanged, the hash is the empty string, the scan goes
  on (unless cancelled it gets through every file), the scan calls \<^verbatim>\<open>add_file\<close> with the
  empty hash and the file's modification time, the row is in the store at the end of the
  scan, and a later scan that sees the same modification time treats the file as
  unchanged: it neither hashes it nor gives it to the processor.
\<close>

theorem unreadable_file_is_recorded:
  assumes "path_exists h (root_path args)"
    and "read_file h p = None"
    and "p \<in> set (handled_paths (trace (scan_directory h args db)))"
    and "\<not> file_exists db p (getmtime h p)"
    and "getmtime h2 p = getmtime h p"
  shows "calculate_hash h p = []
       \<and> AddFile p [] (getmtime h p) \<in> set (trace (scan_directory h args db))
       \<and> (cancelled (scan_directory h args db)
            \<or> processed_files (scan_directory h args db) = length (image_files h (root_path args)))
       \<and> find (\<lambda>r. f_path r = p) (files (store (scan_directory h args db)))
           = Some \<lparr>f_path = p, f_hash = [], f_modified_time = getmtime h p\<rparr>
       \<and> file_exists (store (scan_directory h args db)) p (getmtime h2 p)
       \<and> filter (touches p) (trace (scan_directory h2 args2 (store (scan_directory h args db)))) = []"
proof -
  let ?fs = "image_files h (root_path args)"
  let ?r = "scan_loop h args (length ?fs) ?fs (start_state db)"
  let ?db1 = "store (scan_directory h args db)"
  have sd: "scan_directory h args db = report_progress args (length ?fs) ''Complete'' ?r"
    using assms(1) by (rule scan_directory_existing)
  have db1: "?db1 = store ?r" unfolding sd by (simp add: report_progress_simps)
  have hash: "calculate_hash h p = []" using assms(2) by (simp add: calculate_hash_def)
  have count: "cancelled (scan_directory h args db)
      \<or> processed_files (scan_directory h args db) = length ?fs"
    using processed_files_scan_loop [of "start_state db" h args "length ?fs" ?fs]
    unfolding sd by (auto simp: report_progress_simps start_state_simps cancelled_report_progress)
  have "handled_paths (trace (scan_directory h args db)) = handled_paths (trace ?r)"
    unfolding sd by (simp add: handled_report_progress)
  then have "p \<in> set (take (processed_files ?r - processed_files (start_state db)) ?fs)"
    using assms(3) handled_scan_loop [of h args "length ?fs" ?fs "start_state db"]
    by (simp add: start_state_simps)
  from handled_row_written [OF this] assms(4)
  have row: "find (\<lambda>r. f_path r = p) (files ?db1)
      = Some \<lparr>f_path = p, f_hash = [], f_modified_time = getmtime h p\<rparr>"
    and added: "AddFile p [] (getmtime h p) \<in> set (trace ?r)"
    unfolding db1 hash by (simp_all add: start_state_simps)
  have added': "AddFile p [] (getmtime h p) \<in> set (trace (scan_directory h args db))"
    using added unfolding sd by (simp add: report_progress_simps)
  have ex: "file_exists ?db1 p (getmtime h2 p)"
    using row assms(5) by (simp add: file_exists_def)
  have "filter (touches p) (trace (scan_directory h2 args2 ?db1)) = []"
  proof (cases "path_exists h2 (root_path args2)")
    case False
    then show ?thesis by (simp add: scan_directory_def start_state_simps)
  next
    case True
    have "file_exists (store (start_state ?db1)) p (getmtime h2 p)"
      using ex by (simp add: start_state_simps)
    from unchanged_file_not_touched [OF this]
    show ?thesis
      unfolding scan_directory_existing [OF True]
      by (simp add: report_progress_simps start_state_simps)
  qed
  with hash count row ex added' show ?thesis by simp
qed

theorem unreadable_file_is_recorded_witness:
  "path_exists example_host (root_path (example_args (\<lambda>k. k = 1)))
   \<and> read_file example_host ''/photos/a.jpg'' = None
   \<and> ''/photos/a.jpg''
        \<in> set (handled_paths (trace (scan_directory example_host (example_args (\<lambda>k. k = 1)) empty_db)))
   \<and> \<not> file_exists empty_db ''/photos/a.jpg'' (getmtime example_host ''/photos/a.jpg'')
   \<and> AddFile ''/photos/a.jpg'' [] 100
        \<in> set (trace (scan_directory example_host (example_args (\<lambda>k. k = 1)) empty_db))
   \<and> find (\<lambda>r. f_path r = ''/photos/a.jpg'')
        (files (store (scan_directory example_host (example_args (\<lambda>k. k = 1)) empty_db)))
       = Some \<lparr>f_path = ''/photos/a.jpg'', f_hash = [], f_modified_time = 100\<rparr>
   \<and> filter (touches ''/photos/a.jpg'')
        (trace (scan_directory example_host (example_args (\<lambda>k. False))
                 (store (scan_directory example_host (example_args (\<lambda>k. k = 1)) empty_db)))) = []"
proof -
  let ?args = "example_args (\<lambda>k. k = 1)"
  have h1: "path_exists example_host (root_path ?args)" by code_simp
  have h2: "read_file example_host ''/photos/a.jpg'' = None" by code_simp
  have h3: "''/photos/a.jpg'' \<in> set (handled_paths (trace (scan_directory example_host ?args empty_db)))"
    by code_simp
  have h4: "\<not> file_exists empty_db ''/photos/a.jpg'' (getmtime example_host ''/photos/a.jpg'')"
    by code_simp
  have h6: "getmtime example_host ''/photos/a.jpg'' = getmtime example_host ''/photos/a.jpg''"
    by (rule refl)
  have m: "getmtime example_host ''/photos/a.jpg'' = 100" by code_simp
  from unreadable_file_is_recorded [OF h1 h2 h3 h4 h6, of "example_args (\<lambda>k. False)"] h1 h2 h3 h4
  show ?thesis unfolding m by simp
qed

section \<open>Properties of the session\<close>

text \<open>
  Claim C8. For CLUSTER, GET_UNCLUSTERED, GET_PERSONS, GET_PHOTOS_BY_PERSON, RENAME_PERSON,
  MERGE_PERSONS and CLEAR_INDEX: if one of the fields the command tests is absent or has a
  falsy value, the command changes nothing in the world and prints no line.
\<close>

theorem falsy_field_drops_command:
  assumes "map_of required_fields a = Some names"
    and "f \<in> set names"
    and "dict_get cmd ''action'' = JStr a"
    and "\<not> truthy (dict_get cmd f)"
  shows "handle_command env (JDict cmd) w = Some (w, [])"
proof -
  consider
      "a = ''CLUSTER''" "f = ''path''"
    | "a = ''GET_UNCLUSTERED''" "f = ''path''"
    | "a = ''GET_PERSONS''" "f = ''path''"
    | "a = ''GET_PHOTOS_BY_PERSON''" "f = ''path'' \<or> f = ''person_id''"
    | "a = ''RENAME_PERSON''" "f = ''path'' \<or> f = ''person_id'' \<or> f = ''new_name''"
    | "a = ''MERGE_PERSONS''" "f = ''path'' \<or> f = ''keep_id'' \<or> f = ''merge_id''"
    | "a = ''CLEAR_INDEX''" "f = ''path''"
    using assms(1,2) by (auto simp: required_fields_def split: if_splits)
  then show ?thesis
  proof cases
    case 1
    with assms(3,4) show ?thesis by (simp add: handle_command_def cmd_cluster_def)
  next
    case 2
    with assms(3,4) show ?thesis by (simp add: handle_command_def cmd_get_unclustered_def)
  next
    case 3
    with assms(3,4) show ?thesis by (simp add: handle_command_def cmd_get_persons_def)
  next
    case 4
    with assms(3,4) show ?thesis by (auto simp: handle_command_def cmd_get_photos_by_person_def)
  next
    case 5
    with assms(3,4) show ?thesis by (auto simp: handle_command_def cmd_rename_person_def)
  next
    case 6
    with assms(3,4) show ?thesis by (auto simp: handle_command_def cmd_merge_persons_def)
  next
    case 7
    with assms(3,4) show ?thesis by (simp add: handle_command_def cmd_clear_index_def)
  qed
qed

theorem falsy_field_drops_command_witness:
  "map_of required_fields ''RENAME_PERSON'' = Some [''path'', ''person_id'', ''new_name'']
   \<and> ''person_id'' \<in> set [''path'', ''person_id'', ''new_name'']
   \<and> dict_get [(''action'', JStr ''RENAME_PERSON''), (''path'', JStr ''/photos''),
                (''person_id'', JInt 0), (''new_name'', JStr ''Ann'')] ''action''
       = JStr ''RENAME_PERSON''
   \<and> \<not> truthy (dict_get [(''action'', JStr ''RENAME_PERSON''), (''path'', JStr ''/photos''),
                (''person_id'', JInt 0), (''new_name'', JStr ''Ann'')] ''person_id'')
   \<and> handle_command example_env
        (JDict [(''action'', JStr ''RENAME_PERSON''), (''path'', JStr ''/photos''),
                (''person_id'', JInt 0), (''new_name'', JStr ''Ann'')]) example_world
       = Some (example_world, [])"
proof -
  let ?cmd = "[(''action'', JStr ''RENAME_PERSON''), (''path'', JStr ''/photos''),
                (''person_id'', JInt 0), (''new_name'', JStr ''Ann'')]"
  have h1: "map_of required_fields ''RENAME_PERSON'' = Some [''path'', ''person_id'', ''new_name'']"
    by (simp add: required_fields_def)
  have h2: "''person_id'' \<in> set [''path'', ''person_id'', ''new_name'']" by simp
  have h3: "dict_get ?cmd ''action'' = JStr ''RENAME_PERSON''" by (simp add: dict_get_def)
  have h4: "\<not> truthy (dict_get ?cmd ''person_id'')" by (simp add: dict_get_def)
  from falsy_field_drops_command [OF h1 h2 h3 h4, of example_env example_world] h1 h2 h3 h4
  show ?thesis by simp
qed

text \<open>
  Claim C4 says that every face with a person id refers to an existing person after any
  sequence of commands, also after MERGE_PERSONS with \<^verbatim>\<open>keep_id = merge_id\<close>. The code at
  that input: in a store where every reference is good, the command is answered with
  \<^verbatim>\<open>persons_merged\<close>, person 1 is deleted and face 1 still refers to it.
\<close>

theorem merge_same_id_breaks_references:
  "references_ok merge_example_db
   \<and> handle_command example_env
        (JDict [(''action'', JStr ''MERGE_PERSONS''), (''path'', JStr ''/photos''),
                (''keep_id'', JInt 1), (''merge_id'', JInt 1)]) example_world
       = Some (example_world\<lparr>indexes := [(''/photos'', merge_persons merge_example_db 1 1)]\<rparr>,
               [RPersonsMerged (JInt 1) (JInt 1)])
   \<and> map person_id (faces (merge_persons merge_example_db 1 1)) = [Some 1, Some 2, Some 2, None]
   \<and> map pr_id (persons (merge_persons merge_example_db 1 1)) = [2]
   \<and> \<not> references_ok (merge_persons merge_example_db 1 1)"
  by (simp add: handle_command_def cmd_merge_persons_def dict_get_def with_db_def put_db_def
      example_world_def references_ok_def face_ref_ok_def person_exists_def
      merge_persons_def merge_move_faces_def merge_delete_person_def merge_example_db_def Let_def)

text \<open>
  Claim C5 says that a SCAN whose root does not exist is rejected at once, with an error
  status instead of a complete status. The code at a root that does not exist, with a
  setup in which every step succeeds: \<^verbatim>\<open>scan_directory\<close> called on the missing root does
  return at once, with no event and no write (its guard logs \<^verbatim>\<open>Path does not exist\<close> as an
  error); but \<^verbatim>\<open>run_scan\<close> creates the index directory with \<^verbatim>\<open>mkdir(parents=True)\<close>, and
  with it the root, before the scanner looks at it, so the guard does not fire: the
  session prints started, one progress event with 0 of 0 files, and complete. No line is
  an error.
\<close>

theorem missing_root_reported_complete:
  "\<not> path_exists example_host ''/missing''
   \<and> scan_directory example_host
        \<lparr>root_path = ''/missing'', processor = None, progress_callback = True,
         abort_check = None\<rparr> empty_db
       = start_state empty_db
   \<and> path_exists (host_after_mkdir example_host ''/missing'') ''/missing''
   \<and> run_scan example_host example_setup (JStr ''/missing'') (JStr ''CPUExecutionProvider'') []
       = ([(''/missing'', empty_db)],
          [RStarted (JStr ''/missing''), RProgress 0 0 ''Complete'', RComplete (JStr ''/missing'')])
   \<and> RError \<notin> set (snd (run_scan example_host example_setup (JStr ''/missing'')
                           (JStr ''CPUExecutionProvider'') []))"
  by code_simp

section \<open>The clustering run on a store with an unparsable embedding\<close>

lemmas clustering_eval =
  run_clustering_def get_unclustered_faces_def parse_embedding_def unique_labels_def
  create_person_def update_face_person_def get_first_face_thumbnail_def face_with_def Let_def

text \<open>
  Claim C1 says that a face whose embedding fails to parse keeps a null person id and that
  every assigned face is assigned by the label of its own embedding. The code where face 1
  does not parse and faces 2 and 3 carry one vector, for any parser that accepts that
  vector and any clustering that puts the two equal points in cluster 0: face 1 gets the
  new person, with the label computed from face 2, face 2 gets the label computed from
  face 3, and face 3 stays without a person.
\<close>

theorem unparsed_face_gets_person:
  assumes "ld ''[1.0, 0.0]'' = Some e" and "cluster [e, e] = Some [0, 0]"
  shows "snd (run_clustering ld cluster unparsed_first_db) = Inr 1
       \<and> map (\<lambda>f. (face_id f, person_id f)) (faces (fst (run_clustering ld cluster unparsed_first_db)))
           = [(1, Some 1), (2, Some 1), (3, None)]"
  using assms by (simp add: clustering_eval unparsed_first_db_def)

theorem unparsed_face_gets_person_witness:
  "snd (run_clustering (\<lambda>t. Some t) (\<lambda>X. Some (map (\<lambda>x. 0) X)) unparsed_first_db) = Inr 1
   \<and> map (\<lambda>f. (face_id f, person_id f))
        (faces (fst (run_clustering (\<lambda>t. Some t) (\<lambda>X. Some (map (\<lambda>x. 0) X))
           unparsed_first_db)))
       = [(1, Some 1), (2, Some 1), (3, None)]"
  using unparsed_face_gets_person
    [of "\<lambda>t. Some t" "''[1.0, 0.0]''" "\<lambda>X. Some (map (\<lambda>x. 0) X)"]
  by simp

text \<open>
  Claim C6 says that no face whose point was labelled noise is assigned a person. The code
  where face 1 does not parse, the point of face 2 is noise and the points of faces 3 and 4
  form cluster 0: face 2 is assigned the new person and face 4 is not. (The person still
  has two faces.)
\<close>

theorem noise_face_gets_person:
  assumes "ld ''[0.0, 1.0]'' = Some a" and "ld ''[1.0, 0.0]'' = Some b"
    and "cluster [a, b, b] = Some [- 1, 0, 0]"
  shows "snd (run_clustering ld cluster noise_second_db) = Inr 1
       \<and> map (\<lambda>f. (face_id f, person_id f)) (faces (fst (run_clustering ld cluster noise_second_db)))
           = [(1, None), (2, Some 1), (3, Some 1), (4, None)]"
  using assms by (simp add: clustering_eval noise_second_db_def)

theorem noise_face_gets_person_witness:
  "snd (run_clustering (\<lambda>t. Some t)
            (\<lambda>X. Some (map (\<lambda>x. if x = ''[0.0, 1.0]'' then - 1 else 0) X)) noise_second_db) = Inr 1
   \<and> map (\<lambda>f. (face_id f, person_id f))
        (faces (fst (run_clustering (\<lambda>t. Some t)
            (\<lambda>X. Some (map (\<lambda>x. if x = ''[0.0, 1.0]'' then - 1 else 0) X)) noise_second_db)))
       = [(1, None), (2, Some 1), (3, Some 1), (4, None)]"
  using noise_face_gets_person
    [of "\<lambda>t. Some t" "''[0.0, 1.0]''" "''[1.0, 0.0]''"
        "\<lambda>X. Some (map (\<lambda>x. if x = ''[0.0, 1.0]'' then - 1 else 0) X)"]
  by simp

end
